theory Spec2Isabelle
  imports Complex_Main
begin

section \<open>MQTT client wrapper (src/broker/mqtt_client.py)\<close>

text \<open>
  A sequential model of \<^verbatim>\<open>MQTTClientWrapper\<close>. The Paho client (\<^verbatim>\<open>self.client\<close>), the
  clock, the user callbacks and the payload codecs are not part of the repository; they are
  parameters of the model. Every method takes the client state and returns the new one.
\<close>

subsection \<open>Topic matching\<close>

text \<open>
  \<^verbatim>\<open>str.split('/')\<close>: cuts at every slash, keeps empty levels, and never returns the
  empty list.
\<close>

fun split_slash :: "string \<Rightarrow> string list" where
  "split_slash [] = [[]]"
| "split_slash (c # cs) =
     (if c = CHR ''/'' then [] # split_slash cs
      else (case split_slash cs of
              [] \<Rightarrow> [[c]]
            | w # ws \<Rightarrow> (c # w) # ws))"

text \<open>
  The body of the \<^verbatim>\<open>for i, pattern_part in enumerate(pattern_parts)\<close> loop of
  \<^verbatim>\<open>_topic_matches\<close>, with the \<^verbatim>\<open>return\<close> that follows the loop as the base case.
  \<open>i\<close> is the loop index and the last argument the pattern levels still to visit.
\<close>

fun topic_loop :: "string list \<Rightarrow> string list \<Rightarrow> nat \<Rightarrow> string list \<Rightarrow> bool" where
  "topic_loop topic_parts pattern_parts i [] =
     (length topic_parts = length pattern_parts)"
| "topic_loop topic_parts pattern_parts i (pattern_part # rest) =
     (if pattern_part = ''#'' then True
      else if i \<ge> length topic_parts then False
      else if pattern_part \<noteq> ''+'' \<and> pattern_part \<noteq> topic_parts ! i then False
      else topic_loop topic_parts pattern_parts (Suc i) rest)"

definition topic_matches :: "string \<Rightarrow> string \<Rightarrow> bool" where
  "topic_matches topic pattern =
     (let topic_parts = split_slash topic;
          pattern_parts = split_slash pattern
      in if ''#'' \<in> set (butlast pattern_parts) then False
         else topic_loop topic_parts pattern_parts 0 pattern_parts)"

text \<open>
  The wildcard semantics in the words of the specification, level by level: a \<open>#\<close> level
  accepts everything that remains when it is the final level and nothing otherwise, a
  \<open>+\<close> level consumes one topic level, a literal level must equal the topic level, and
  without \<open>#\<close> both sides must run out together.
\<close>

fun spec_levels_match :: "string list \<Rightarrow> string list \<Rightarrow> bool" where
  "spec_levels_match ts [] = (ts = [])"
| "spec_levels_match ts (p # ps) =
     (if p = ''#'' then ps = []
      else (case ts of
              [] \<Rightarrow> False
            | t # ts' \<Rightarrow> (p = ''+'' \<or> p = t) \<and> spec_levels_match ts' ps))"

definition spec_matches :: "string \<Rightarrow> string \<Rightarrow> bool" where
  "spec_matches topic pattern =
     spec_levels_match (split_slash topic) (split_slash pattern)"

subsection \<open>Data model\<close>

datatype ConnectionState = DISCONNECTED | CONNECTING | CONNECTED | RECONNECTING | ERROR

text \<open>The fields of \<^verbatim>\<open>MQTTConfig\<close> that the wrapper's own methods read.\<close>

record MQTTConfig =
  auto_reconnect :: bool
  reconnect_delay :: int
  max_reconnect_delay :: int
  queue_size :: int
  message_timeout :: int

text \<open>A user callback is known by a number; \<open>None\<close> is Python's \<^verbatim>\<open>None\<close>.\<close>

record Subscription =
  sub_topic :: string
  sub_qos :: int
  sub_callback :: "nat option"

text \<open>\<^verbatim>\<open>time.time()\<close> is a float; the clock is idealised to the reals.\<close>

record QueuedMessage =
  msg_topic :: string
  msg_payload :: string
  msg_qos :: int
  msg_retain :: bool
  msg_timestamp :: real

text \<open>
  The calls the wrapper makes on the Paho client. A call either returns a result code
  (\<open>0\<close> is \<^verbatim>\<open>MQTT_ERR_SUCCESS\<close>) or raises. The Paho client itself is a parameter: a
  function from the calls made so far, with their results, and the present call to its
  result.
\<close>

datatype request =
    Connect | LoopStart | LoopStop | Disconnect | Reconnect
  | Publish string string int bool
  | Subscribe string int
  | Unsubscribe string

datatype call_result = Rc int | Raised

type_synonym transport = "(request \<times> call_result) list \<Rightarrow> request \<Rightarrow> call_result"

text \<open>What \<^verbatim>\<open>logger.warning\<close> and \<^verbatim>\<open>logger.error\<close> receive (the fixed part of the text).\<close>

datatype log_event = LogWarning string | LogError string

text \<open>Whether an exception leaves a method.\<close>

datatype status = Returned | Propagated

text \<open>
  The instance attributes of \<^verbatim>\<open>MQTTClientWrapper\<close>. The dictionary \<^verbatim>\<open>subscriptions\<close>
  is an association list in insertion order, as Python dictionaries iterate; the five
  entries of \<^verbatim>\<open>stats\<close> are fields of their own. The last three fields are not in the
  source: they record the calls made on the Paho client, the warnings and errors logged,
  and the arguments of \<^verbatim>\<open>time.sleep\<close> in the queue worker and the reconnect loop.
\<close>

record client =
  config :: MQTTConfig
  state :: ConnectionState
  connected_flag :: bool
  subscriptions :: "(string \<times> Subscription) list"
  wildcard_callbacks :: "(string \<times> nat option) list"
  message_queue :: "QueuedMessage list"
  queue_thread :: bool
  queue_running :: bool
  messages_sent :: int
  messages_received :: int
  messages_queued :: int
  reconnect_count :: int
  errors :: int
  calls :: "(request \<times> call_result) list"
  logged :: "log_event list"
  slept :: "int list"

definition init :: "MQTTConfig \<Rightarrow> client" where
  "init cfg =
     \<lparr>config = cfg, state = DISCONNECTED, connected_flag = False,
      subscriptions = [], wildcard_callbacks = [], message_queue = [],
      queue_thread = False, queue_running = False,
      messages_sent = 0, messages_received = 0, messages_queued = 0,
      reconnect_count = 0, errors = 0, calls = [], logged = [], slept = []\<rparr>"

definition call :: "transport \<Rightarrow> client \<Rightarrow> request \<Rightarrow> call_result \<times> client" where
  "call T c r = (let res = T (calls c) r in (res, c\<lparr>calls := calls c @ [(r, res)]\<rparr>))"

definition add_log :: "log_event \<Rightarrow> client \<Rightarrow> client" where
  "add_log e c = c\<lparr>logged := logged c @ [e]\<rparr>"

definition sleep :: "int \<Rightarrow> client \<Rightarrow> client" where
  "sleep d c = c\<lparr>slept := slept c @ [d]\<rparr>"

text \<open>\<^verbatim>\<open>d[k] = v\<close> keeps the position of a key that is present; \<^verbatim>\<open>del d[k]\<close>.\<close>

fun dict_set :: "'k \<Rightarrow> 'v \<Rightarrow> ('k \<times> 'v) list \<Rightarrow> ('k \<times> 'v) list" where
  "dict_set k v [] = [(k, v)]"
| "dict_set k v ((k', v') # kvs) =
     (if k' = k then (k, v) # kvs else (k', v') # dict_set k v kvs)"


subsection \<open>Queue processor control\<close>

definition start_queue_processor :: "client \<Rightarrow> client" where
  "start_queue_processor c =
     (if \<not> queue_running c then c\<lparr>queue_running := True, queue_thread := True\<rparr> else c)"

definition stop_queue_processor :: "client \<Rightarrow> client" where
  "stop_queue_processor c = c\<lparr>queue_running := False\<rparr>"

subsection \<open>Resubscription and the connect callback\<close>

text \<open>
  The two \<^verbatim>\<open>for\<close> loops of \<^verbatim>\<open>_resubscribe_all\<close> call \<^verbatim>\<open>self.client.subscribe\<close> and
  ignore what it returns; nothing catches an exception, so a raising call ends the method.
\<close>

fun subscribe_each :: "transport \<Rightarrow> client \<Rightarrow> (string \<times> int) list \<Rightarrow> status \<times> client" where
  "subscribe_each T c [] = (Returned, c)"
| "subscribe_each T c ((topic, q) # rest) =
     (case call T c (Subscribe topic q) of
        (Raised, c') \<Rightarrow> (Propagated, c')
      | (Rc r, c') \<Rightarrow> subscribe_each T c' rest)"

definition resubscribe_all :: "transport \<Rightarrow> client \<Rightarrow> status \<times> client" where
  "resubscribe_all T c =
     (case subscribe_each T c (map (\<lambda>(topic, sub). (topic, sub_qos sub)) (subscriptions c)) of
        (Propagated, c') \<Rightarrow> (Propagated, c')
      | (Returned, c') \<Rightarrow>
          subscribe_each T c' (map (\<lambda>(topic, callback). (topic, 1)) (wildcard_callbacks c')))"

definition on_connect :: "transport \<Rightarrow> client \<Rightarrow> int \<Rightarrow> status \<times> client" where
  "on_connect T c rc =
     (if rc = 0 then
        (case resubscribe_all T (c\<lparr>connected_flag := True, state := CONNECTED\<rparr>) of
           (Propagated, c') \<Rightarrow> (Propagated, c')
         | (Returned, c') \<Rightarrow> (Returned, start_queue_processor c'))
      else
        (Returned,
         (add_log (LogError ''Connection failed'') c)
           \<lparr>connected_flag := False, state := ERROR, errors := errors c + 1\<rparr>))"

text \<open>
  A callback that the network thread delivers while another method waits: \<open>None\<close> when
  none arrives, \<open>Some rc\<close> for \<^verbatim>\<open>_on_connect(..., rc)\<close>. An exception of the callback
  stays in the network thread.
\<close>

definition deliver :: "transport \<Rightarrow> client \<Rightarrow> int option \<Rightarrow> client" where
  "deliver T c ev = (case ev of None \<Rightarrow> c | Some rc \<Rightarrow> snd (on_connect T c rc))"

subsection \<open>Connecting and disconnecting\<close>

text \<open>
  \<^verbatim>\<open>connect\<close>: the polling loop waits until \<^verbatim>\<open>self.connected\<close> is set or ten seconds
  have passed; \<open>connack\<close> is the callback that arrives within that time.
\<close>

definition connect :: "transport \<Rightarrow> client \<Rightarrow> int option \<Rightarrow> bool \<times> client" where
  "connect T c connack =
     (if connected_flag c then (True, add_log (LogWarning ''Already connected'') c)
      else
        (case call T (c\<lparr>state := CONNECTING\<rparr>) Connect of
           (Raised, c2) \<Rightarrow>
             (False, (add_log (LogError ''Connection failed'') c2)
                       \<lparr>state := ERROR, errors := errors c2 + 1\<rparr>)
         | (Rc r, c2) \<Rightarrow>
             (case call T c2 LoopStart of
                (Raised, c3) \<Rightarrow>
                  (False, (add_log (LogError ''Connection failed'') c3)
                            \<lparr>state := ERROR, errors := errors c3 + 1\<rparr>)
              | (Rc r', c3) \<Rightarrow>
                  (let c4 = deliver T c3 connack
                   in if connected_flag c4 then (True, c4)
                      else (False, add_log (LogError ''Connection timeout'') c4)))))"

text \<open>The \<^verbatim>\<open>try\<close> block of \<^verbatim>\<open>disconnect\<close>, and the method with its handler.\<close>

definition disconnect_body :: "transport \<Rightarrow> client \<Rightarrow> status \<times> client" where
  "disconnect_body T c =
     (case call T (stop_queue_processor c) LoopStop of
        (Raised, c2) \<Rightarrow> (Propagated, c2)
      | (Rc r, c2) \<Rightarrow>
          (case call T c2 Disconnect of
             (Raised, c3) \<Rightarrow> (Propagated, c3)
           | (Rc r', c3) \<Rightarrow>
               (Returned, c3\<lparr>connected_flag := False, state := DISCONNECTED\<rparr>)))"

definition disconnect :: "transport \<Rightarrow> client \<Rightarrow> status \<times> client" where
  "disconnect T c =
     (case disconnect_body T c of
        (Propagated, c') \<Rightarrow> (Returned, add_log (LogError ''Disconnect error'') c')
      | (Returned, c') \<Rightarrow> (Returned, c'))"

subsection \<open>Reconnection\<close>

text \<open>
  The \<^verbatim>\<open>while\<close> loop of \<^verbatim>\<open>_handle_reconnect\<close>. It leaves only when another thread sets
  \<^verbatim>\<open>self.connected\<close>, so the list gives, for each pass, the callback that arrives after
  it; the loop is followed for as many passes as the list is long. \<^verbatim>\<open>time.sleep\<close>
  raises on a negative argument, and the handler of the loop continues.
\<close>

fun reconnect_loop :: "transport \<Rightarrow> client \<Rightarrow> int \<Rightarrow> int option list \<Rightarrow> client" where
  "reconnect_loop T c delay [] = c"
| "reconnect_loop T c delay (ev # evs) =
     (if auto_reconnect (config c) \<and> \<not> connected_flag c then
        (if delay < 0 then
           reconnect_loop T (deliver T (add_log (LogError ''Reconnect failed'') c) ev) delay evs
         else
           (case call T (sleep delay c) Reconnect of
              (Raised, c2) \<Rightarrow>
                reconnect_loop T (deliver T (add_log (LogError ''Reconnect failed'') c2) ev)
                  delay evs
            | (Rc r, c2) \<Rightarrow>
                reconnect_loop T (deliver T c2 ev)
                  (min (delay * 2) (max_reconnect_delay (config c2))) evs))
      else c)"

definition handle_reconnect :: "transport \<Rightarrow> client \<Rightarrow> int option list \<Rightarrow> client" where
  "handle_reconnect T c evs =
     reconnect_loop T (c\<lparr>reconnect_count := reconnect_count c + 1\<rparr>)
       (reconnect_delay (config c)) evs"

definition on_disconnect :: "transport \<Rightarrow> client \<Rightarrow> int \<Rightarrow> int option list \<Rightarrow> client" where
  "on_disconnect T c rc evs =
     (let c1 = c\<lparr>connected_flag := False\<rparr>;
          c2 = (if rc = 0 then c1\<lparr>state := DISCONNECTED\<rparr>
                else add_log (LogWarning ''Unexpected disconnect'') (c1\<lparr>state := RECONNECTING\<rparr>));
          c3 = stop_queue_processor c2
      in if auto_reconnect (config c3) \<and> rc \<noteq> 0 then handle_reconnect T c3 evs else c3)"

subsection \<open>Publishing and the outbound queue\<close>

text \<open>
  \<^verbatim>\<open>queue.Queue(maxsize)\<close> is full when \<^verbatim>\<open>maxsize > 0\<close> and it holds \<^verbatim>\<open>maxsize\<close> items;
  \<^verbatim>\<open>put_nowait\<close> raises \<^verbatim>\<open>Full\<close> then, and \<^verbatim>\<open>put\<close> blocks until a slot is free. In this
  model no other thread frees a slot, so a blocked \<^verbatim>\<open>put\<close> does not return (\<open>None\<close>).
  Both append at the tail.
\<close>

definition queue_full :: "client \<Rightarrow> bool" where
  "queue_full c =
     (0 < queue_size (config c) \<and> queue_size (config c) \<le> int (length (message_queue c)))"

definition put :: "client \<Rightarrow> QueuedMessage \<Rightarrow> client option" where
  "put c message =
     (if queue_full c then None
      else Some (c\<lparr>message_queue := message_queue c @ [message]\<rparr>))"

text \<open>\<^verbatim>\<open>_queue_message\<close>; \<open>now\<close> is what \<^verbatim>\<open>time.time()\<close> returns.\<close>

definition queue_message ::
  "real \<Rightarrow> client \<Rightarrow> string \<Rightarrow> string \<Rightarrow> int \<Rightarrow> bool \<Rightarrow> client" where
  "queue_message now c topic payload q retain =
     (let message = \<lparr>msg_topic = topic, msg_payload = payload, msg_qos = q,
                      msg_retain = retain, msg_timestamp = now\<rparr>
      in if queue_full c then add_log (LogError ''Failed to queue message'') c
         else c\<lparr>message_queue := message_queue c @ [message],
                 messages_queued := messages_queued c + 1\<rparr>)"

text \<open>
  \<^verbatim>\<open>publish\<close>. \<open>to_str\<close> stands for the conversion of the payload (\<^verbatim>\<open>json.dumps\<close> for a
  dict or list, \<^verbatim>\<open>str\<close> otherwise); it is \<open>None\<close> where the conversion raises.
\<close>

definition publish ::
  "transport \<Rightarrow> ('p \<Rightarrow> string option) \<Rightarrow> real \<Rightarrow> client \<Rightarrow> string \<Rightarrow> 'p \<Rightarrow> int \<Rightarrow> bool
   \<Rightarrow> bool \<times> client" where
  "publish T to_str now c topic payload q retain =
     (case to_str payload of
        None \<Rightarrow> (False, (add_log (LogError ''Publish error'') c)\<lparr>errors := errors c + 1\<rparr>)
      | Some payload_str \<Rightarrow>
          (if connected_flag c then
             (case call T c (Publish topic payload_str q retain) of
                (Raised, c1) \<Rightarrow>
                  (False, (add_log (LogError ''Publish error'') c1)\<lparr>errors := errors c1 + 1\<rparr>)
              | (Rc r, c1) \<Rightarrow>
                  (if r = 0 then (True, c1\<lparr>messages_sent := messages_sent c1 + 1\<rparr>)
                   else (False, queue_message now (add_log (LogWarning ''Publish failed'') c1)
                                  topic payload_str q retain)))
           else (False, queue_message now c topic payload_str q retain)))"

text \<open>
  One pass of the \<^verbatim>\<open>while self.queue_running\<close> loop of \<^verbatim>\<open>_process_queue\<close>, at clock
  reading \<open>now\<close>. \<^verbatim>\<open>get\<close> takes the head of the queue.
\<close>

definition process_queue_step :: "transport \<Rightarrow> real \<Rightarrow> client \<Rightarrow> client option" where
  "process_queue_step T now c =
     (case message_queue c of
        [] \<Rightarrow> Some c
      | message # rest \<Rightarrow>
          (let c1 = c\<lparr>message_queue := rest\<rparr>;
               age = now - msg_timestamp message
           in if age > of_int (message_timeout (config c1))
              then Some (add_log (LogWarning ''Dropping old message'') c1)
              else if connected_flag c1 then
                (case call T c1 (Publish (msg_topic message) (msg_payload message)
                                   (msg_qos message) (msg_retain message)) of
                   (Raised, c2) \<Rightarrow>
                     Some (sleep 1 (add_log (LogError ''Queue processing error'') c2))
                 | (Rc r, c2) \<Rightarrow>
                     (if r = 0 then Some (c2\<lparr>messages_sent := messages_sent c2 + 1\<rparr>)
                      else map_option (sleep 1) (put c2 message)))
              else map_option (sleep 1) (put c1 message)))"

text \<open>
  The loop, followed for one pass per clock reading of the list; it ends earlier when
  \<^verbatim>\<open>queue_running\<close> is cleared.
\<close>

fun process_queue :: "transport \<Rightarrow> client \<Rightarrow> real list \<Rightarrow> client option" where
  "process_queue T c [] = Some c"
| "process_queue T c (now # nows) =
     (if queue_running c then
        (case process_queue_step T now c of
           None \<Rightarrow> None
         | Some c' \<Rightarrow> process_queue T c' nows)
      else Some c)"

text \<open>The publish calls that the Paho client accepted, in the order they were made.\<close>

definition sent_publishes :: "client \<Rightarrow> request list" where
  "sent_publishes c =
     map fst (filter (\<lambda>(r, res). res = Rc 0 \<and> (case r of Publish t p q f \<Rightarrow> True | _ \<Rightarrow> False))
                (calls c))"

definition publish_of :: "QueuedMessage \<Rightarrow> request" where
  "publish_of m = Publish (msg_topic m) (msg_payload m) (msg_qos m) (msg_retain m)"

subsection \<open>Subscribing\<close>

definition subscribe ::
  "transport \<Rightarrow> client \<Rightarrow> string \<Rightarrow> int \<Rightarrow> nat option \<Rightarrow> bool \<times> client" where
  "subscribe T c topic q callback =
     (let subscription = \<lparr>sub_topic = topic, sub_qos = q, sub_callback = callback\<rparr>;
          c1 = (if CHR ''+'' \<in> set topic \<or> CHR ''#'' \<in> set topic
                then c\<lparr>wildcard_callbacks := wildcard_callbacks c @ [(topic, callback)]\<rparr>
                else c\<lparr>subscriptions := dict_set topic subscription (subscriptions c)\<rparr>)
      in if connected_flag c1 then
           (case call T c1 (Subscribe topic q) of
              (Raised, c2) \<Rightarrow>
                (False, (add_log (LogError ''Subscribe error'') c2)\<lparr>errors := errors c2 + 1\<rparr>)
            | (Rc r, c2) \<Rightarrow>
                (if r = 0 then (True, c2)
                 else (False, add_log (LogError ''Subscribe failed'') c2)))
         else (True, c1))"


subsection \<open>Inbound dispatch\<close>

text \<open>
  What a callback receives as payload: the parsed JSON value, or the decoded text where
  \<^verbatim>\<open>json.loads\<close> raises \<^verbatim>\<open>JSONDecodeError\<close>.
\<close>

datatype 'j payload_data = Json 'j | Text string

record MQTTMessage =
  in_topic :: string
  in_payload :: string

text \<open>
  \<^verbatim>\<open>json.loads\<close> returns a value, raises \<^verbatim>\<open>JSONDecodeError\<close>, which the inner handler
  catches, or raises another exception (\<^verbatim>\<open>RecursionError\<close> on deep nesting), which it does
  not.
\<close>

datatype 'j loads_result = Parsed 'j | JSONDecodeError | OtherException

text \<open>
  A user callback returns, raises an \<^verbatim>\<open>Exception\<close>, or raises an exception outside
  \<^verbatim>\<open>Exception\<close> (\<^verbatim>\<open>SystemExit\<close>, \<^verbatim>\<open>KeyboardInterrupt\<close>), which no \<^verbatim>\<open>except Exception\<close>
  handler catches.
\<close>

datatype callback_result = CbReturns | CbRaises | CbExits

text \<open>
  How the \<^verbatim>\<open>try\<close> block of \<^verbatim>\<open>_on_message\<close> ends: it completes, an \<^verbatim>\<open>Exception\<close>
  reaches the outer handler, or an exception outside \<^verbatim>\<open>Exception\<close> passes it.
\<close>

datatype outcome = Completed | Failed | Escaped

text \<open>
  A call \<^verbatim>\<open>callback(topic, payload_data, message)\<close> inside its own \<^verbatim>\<open>try\<close>. \<open>raises\<close>
  tells what the user callback does on these arguments; calling \<^verbatim>\<open>None\<close> raises
  \<^verbatim>\<open>TypeError\<close>. The result is whether an exception leaves the \<^verbatim>\<open>try\<close>, what was
  logged and which callbacks ran.
\<close>

definition run_callback ::
  "(nat \<Rightarrow> string \<Rightarrow> 'j payload_data \<Rightarrow> callback_result) \<Rightarrow> string \<Rightarrow> nat option
   \<Rightarrow> string \<Rightarrow> 'j payload_data
   \<Rightarrow> status \<times> log_event list \<times> (nat \<times> string \<times> 'j payload_data) list" where
  "run_callback raises msg callback topic pd =
     (case callback of
        None \<Rightarrow> (Returned, [LogError msg], [])
      | Some f \<Rightarrow>
          (case raises f topic pd of
             CbReturns \<Rightarrow> (Returned, [], [(f, topic, pd)])
           | CbRaises \<Rightarrow> (Returned, [LogError msg], [(f, topic, pd)])
           | CbExits \<Rightarrow> (Propagated, [], [(f, topic, pd)])))"

text \<open>The \<^verbatim>\<open>for pattern, callback in self.wildcard_callbacks\<close> loop.\<close>

fun dispatch_wildcards ::
  "(nat \<Rightarrow> string \<Rightarrow> 'j payload_data \<Rightarrow> callback_result) \<Rightarrow> string \<Rightarrow> 'j payload_data
   \<Rightarrow> (string \<times> nat option) list
   \<Rightarrow> status \<times> log_event list \<times> (nat \<times> string \<times> 'j payload_data) list" where
  "dispatch_wildcards raises topic pd [] = (Returned, [], [])"
| "dispatch_wildcards raises topic pd ((pattern, callback) # rest) =
     (if topic_matches topic pattern then
        (case run_callback raises ''Wildcard callback error'' callback topic pd of
           (Propagated, l, i) \<Rightarrow> (Propagated, l, i)
         | (Returned, l, i) \<Rightarrow>
             (case dispatch_wildcards raises topic pd rest of
                (st, ls, js) \<Rightarrow> (st, l @ ls, i @ js)))
      else dispatch_wildcards raises topic pd rest)"

text \<open>The \<^verbatim>\<open>if topic in self.subscriptions\<close> block.\<close>

definition dispatch_exact ::
  "(nat \<Rightarrow> string \<Rightarrow> 'j payload_data \<Rightarrow> callback_result) \<Rightarrow> string \<Rightarrow> 'j payload_data
   \<Rightarrow> (string \<times> Subscription) list
   \<Rightarrow> status \<times> log_event list \<times> (nat \<times> string \<times> 'j payload_data) list" where
  "dispatch_exact raises topic pd subs =
     (case map_of subs topic of
        None \<Rightarrow> (Returned, [], [])
      | Some sub \<Rightarrow>
          (case sub_callback sub of
             None \<Rightarrow> (Returned, [], [])
           | Some f \<Rightarrow> run_callback raises ''Callback error'' (Some f) topic pd))"

text \<open>The two routing steps, once the payload data is known.\<close>

definition dispatch_message ::
  "(nat \<Rightarrow> string \<Rightarrow> 'j payload_data \<Rightarrow> callback_result) \<Rightarrow> client \<Rightarrow> string
   \<Rightarrow> 'j payload_data
   \<Rightarrow> outcome \<times> client \<times> (nat \<times> string \<times> 'j payload_data) list" where
  "dispatch_message raises c topic pd =
     (case dispatch_exact raises topic pd (subscriptions c) of
        (Propagated, l, i) \<Rightarrow> (Escaped, c\<lparr>logged := logged c @ l\<rparr>, i)
      | (Returned, l, i) \<Rightarrow>
          (case dispatch_wildcards raises topic pd (wildcard_callbacks c) of
             (Propagated, l', i') \<Rightarrow> (Escaped, c\<lparr>logged := logged c @ l @ l'\<rparr>, i @ i')
           | (Returned, l', i') \<Rightarrow> (Completed, c\<lparr>logged := logged c @ l @ l'\<rparr>, i @ i')))"

text \<open>
  The outer \<^verbatim>\<open>try\<close> block of \<^verbatim>\<open>_on_message\<close>. \<open>decode\<close> is \<^verbatim>\<open>bytes.decode('utf-8')\<close>
  (\<open>None\<close> where it raises) and \<open>loads\<close> is \<^verbatim>\<open>json.loads\<close>.
\<close>

definition on_message_body ::
  "(string \<Rightarrow> string option) \<Rightarrow> (string \<Rightarrow> 'j loads_result)
   \<Rightarrow> (nat \<Rightarrow> string \<Rightarrow> 'j payload_data \<Rightarrow> callback_result) \<Rightarrow> client \<Rightarrow> MQTTMessage
   \<Rightarrow> outcome \<times> client \<times> (nat \<times> string \<times> 'j payload_data) list" where
  "on_message_body decode loads raises c message =
     (case decode (in_payload message) of
        None \<Rightarrow> (Failed, c, [])
      | Some payload \<Rightarrow>
          (let c1 = c\<lparr>messages_received := messages_received c + 1\<rparr>
           in case loads payload of
                Parsed j \<Rightarrow> dispatch_message raises c1 (in_topic message) (Json j)
              | JSONDecodeError \<Rightarrow> dispatch_message raises c1 (in_topic message) (Text payload)
              | OtherException \<Rightarrow> (Failed, c1, [])))"

text \<open>
  \<^verbatim>\<open>_on_message\<close> with its handler \<^verbatim>\<open>except Exception\<close>, which logs and counts the error.
\<close>

definition on_message ::
  "(string \<Rightarrow> string option) \<Rightarrow> (string \<Rightarrow> 'j loads_result)
   \<Rightarrow> (nat \<Rightarrow> string \<Rightarrow> 'j payload_data \<Rightarrow> callback_result) \<Rightarrow> client \<Rightarrow> MQTTMessage
   \<Rightarrow> status \<times> client \<times> (nat \<times> string \<times> 'j payload_data) list" where
  "on_message decode loads raises c message =
     (case on_message_body decode loads raises c message of
        (Failed, c', invoked) \<Rightarrow>
          (Returned,
           (add_log (LogError ''Message processing error'') c')\<lparr>errors := errors c' + 1\<rparr>,
           invoked)
      | (Escaped, c', invoked) \<Rightarrow> (Propagated, c', invoked)
      | (Completed, c', invoked) \<Rightarrow> (Returned, c', invoked))"

subsection \<open>Observers and the connection invariant\<close>

definition is_connected :: "client \<Rightarrow> bool" where
  "is_connected c = connected_flag c"

definition get_state :: "client \<Rightarrow> ConnectionState" where
  "get_state c = state c"

definition client_inv :: "client \<Rightarrow> bool" where
  "client_inv c = (is_connected c \<longrightarrow> get_state c = CONNECTED)"

subsection \<open>Values for the scenarios\<close>

text \<open>The defaults of the \<^verbatim>\<open>MQTTConfig\<close> dataclass.\<close>

definition default_config :: MQTTConfig where
  "default_config =
     \<lparr>auto_reconnect = True, reconnect_delay = 5, max_reconnect_delay = 120,
      queue_size = 1000, message_timeout = 30\<rparr>"

text \<open>A Paho client that accepts every call, and one whose \<^verbatim>\<open>disconnect\<close> raises.\<close>

definition accepting :: transport where
  "accepting h r = Rc 0"

definition refusing_disconnect :: transport where
  "refusing_disconnect h r = (if r = Disconnect then Raised else Rc 0)"

definition connected_client :: client where
  "connected_client = (init default_config)\<lparr>connected_flag := True, state := CONNECTED\<rparr>"

text \<open>
  The scenario of three publishes while disconnected with room for two messages: the
  client after the first, the second and the third call.
\<close>

definition capacity_two :: MQTTConfig where
  "capacity_two = default_config\<lparr>queue_size := 2\<rparr>"

definition after_one :: client where
  "after_one = snd (publish accepting Some 1 (init capacity_two) ''t/1'' ''p1'' 1 False)"

definition after_two :: client where
  "after_two = snd (publish accepting Some 2 after_one ''t/2'' ''p2'' 1 False)"

definition after_three :: client where
  "after_three = snd (publish accepting Some 3 after_two ''t/3'' ''p3'' 1 False)"

text \<open>
  A Paho client that rejects the first call made on it and accepts the later ones, queued
  messages, and a connected client whose worker runs on a given queue.
\<close>

definition fail_first :: transport where
  "fail_first h r = (if h = [] then Rc 1 else Rc 0)"

definition queued :: "string \<Rightarrow> real \<Rightarrow> QueuedMessage" where
  "queued topic t =
     \<lparr>msg_topic = topic, msg_payload = ''x'', msg_qos = 1, msg_retain = False,
      msg_timestamp = t\<rparr>"

definition worker_client :: "QueuedMessage list \<Rightarrow> client" where
  "worker_client ms = connected_client\<lparr>queue_running := True, message_queue := ms\<rparr>"

subsection \<open>Auxiliary notions for the statements\<close>

text \<open>The topic of a subscribe call, and the callbacks that an inbound message runs.\<close>

definition subscribed_topic :: "request \<Rightarrow> string option" where
  "subscribed_topic r = (case r of Subscribe t q \<Rightarrow> Some t | _ \<Rightarrow> None)"

definition invoked_by ::
  "(string \<Rightarrow> string option) \<Rightarrow> (string \<Rightarrow> 'j loads_result)
   \<Rightarrow> (nat \<Rightarrow> string \<Rightarrow> 'j payload_data \<Rightarrow> callback_result) \<Rightarrow> client \<Rightarrow> MQTTMessage
   \<Rightarrow> (nat \<times> string \<times> 'j payload_data) list" where
  "invoked_by decode loads raises c message =
     snd (snd (on_message decode loads raises c message))"

text \<open>
  A client that subscribed, while disconnected, first to the pattern \<open>a/+\<close> with QoS 2 and
  then to the topic \<open>b\<close> with QoS 0.
\<close>

definition mixed_client :: client where
  "mixed_client =
     snd (subscribe accepting
            (snd (subscribe accepting (init default_config) ''a/+'' 2 (Some 1)))
            ''b'' 0 (Some 2))"

text \<open>
  Sequences of delays: each delay is followed by itself or by its double capped at \<open>M\<close>;
  and the sequence that doubles at every step.
\<close>

fun backoff_chain :: "int \<Rightarrow> int \<Rightarrow> int list \<Rightarrow> bool" where
  "backoff_chain M d [] = True"
| "backoff_chain M d (x # xs) =
     (x = d \<and> (backoff_chain M d xs \<or> backoff_chain M (min (d * 2) M) xs))"

fun doubling :: "int \<Rightarrow> int \<Rightarrow> nat \<Rightarrow> int list" where
  "doubling M d 0 = []"
| "doubling M d (Suc n) = d # doubling M (min (d * 2) M) n"




text \<open>
  Two wildcard subscribers of which the first raises on every message, a parser for which
  no payload is JSON, and an inbound message that both patterns match.
\<close>

definition two_listeners :: client where
  "two_listeners =
     snd (subscribe accepting
            (snd (subscribe accepting (init default_config) ''a/+'' 1 (Some 1)))
            ''a/#'' 1 (Some 2))"


definition not_json :: "string \<Rightarrow> unit loads_result" where
  "not_json s = JSONDecodeError"

definition inbound :: MQTTMessage where
  "inbound = \<lparr>in_topic = ''a/b'', in_payload = ''hello''\<rparr>"







text \<open>A callback that raises \<^verbatim>\<open>SystemExit\<close> when it is the first subscriber.\<close>

definition first_exits :: "nat \<Rightarrow> string \<Rightarrow> unit payload_data \<Rightarrow> callback_result" where
  "first_exits f t pd = (if f = 1 then CbExits else CbReturns)"

subsection \<open>Facts about topic matching\<close>

lemma split_slash_nonempty: "split_slash s \<noteq> []"
  by (induction s) (auto split: list.splits)

lemma topic_loop_spec:
  "i \<le> length tp \<Longrightarrow> length pp = i + length xs \<Longrightarrow> ''#'' \<notin> set (butlast xs)
   \<Longrightarrow> topic_loop tp pp i xs = spec_levels_match (drop i tp) xs"
proof (induction xs arbitrary: i)
  case Nil
  then show ?case by auto
next
  case (Cons x xs)
  show ?case
  proof (cases "x = ''#''")
    case True
    with Cons.prems(3) have "xs = []" by (cases xs) auto
    with True show ?thesis by simp
  next
    case False
    note notHash = False
    show ?thesis
    proof (cases "i < length tp")
      case True
      have d: "drop i tp = tp ! i # drop (Suc i) tp"
        using True by (simp add: Cons_nth_drop_Suc)
      have b: "''#'' \<notin> set (butlast xs)"
        using Cons.prems(3) by (cases xs) (auto split: if_splits)
      have "topic_loop tp pp (Suc i) xs = spec_levels_match (drop (Suc i) tp) xs"
        using Cons.IH [of "Suc i"] True Cons.prems(2) b by simp
      with notHash True d show ?thesis by auto
    next
      case False
      with Cons.prems(1) have "drop i tp = []" by simp
      with notHash False show ?thesis by simp
    qed
  qed
qed

lemma spec_levels_inner_hash:
  "''#'' \<in> set (butlast ps) \<Longrightarrow> \<not> spec_levels_match ts ps"
proof (induction ps arbitrary: ts)
  case Nil
  then show ?case by simp
next
  case (Cons p ps)
  then show ?case
    by (cases ps; cases ts) (auto split: if_splits)
qed

text \<open>
  C1. \<^verbatim>\<open>_topic_matches\<close> is a total function of its two arguments that agrees, for every
  topic and pattern, with the level-by-level wildcard semantics; a pattern with a \<open>#\<close>
  level before the last level matches no topic; and the five examples of the
  specification evaluate as stated.
\<close>

theorem topic_matches_refines_spec:
  "topic_matches t p = spec_matches t p
   \<and> (''#'' \<in> set (butlast (split_slash p)) \<longrightarrow> \<not> topic_matches t p)
   \<and> topic_matches ''a/b/c'' ''a/+/c''
   \<and> \<not> topic_matches ''a/b/c'' ''a/+''
   \<and> topic_matches ''a/b/c'' ''a/#''
   \<and> topic_matches ''a/b'' ''a/#''
   \<and> topic_matches ''a'' ''#''"
proof -
  have eq: "topic_matches t p = spec_matches t p"
  proof (cases "''#'' \<in> set (butlast (split_slash p))")
    case True
    then show ?thesis
      by (simp add: topic_matches_def spec_matches_def spec_levels_inner_hash)
  next
    case False
    then show ?thesis
      using topic_loop_spec [of 0 "split_slash t" "split_slash p" "split_slash p"]
      by (simp add: topic_matches_def spec_matches_def)
  qed
  have inner: "''#'' \<in> set (butlast (split_slash p)) \<longrightarrow> \<not> topic_matches t p"
    by (simp add: topic_matches_def)
  have e1: "topic_matches ''a/b/c'' ''a/+/c''" by (simp add: topic_matches_def)
  have e2: "\<not> topic_matches ''a/b/c'' ''a/+''" by (simp add: topic_matches_def)
  have e3: "topic_matches ''a/b/c'' ''a/#''" by (simp add: topic_matches_def)
  have e4: "topic_matches ''a/b'' ''a/#''" by (simp add: topic_matches_def)
  have e5: "topic_matches ''a'' ''#''" by (simp add: topic_matches_def)
  from eq inner e1 e2 e3 e4 e5 show ?thesis by blast
qed

theorem topic_matches_refines_spec_witness:
  "''#'' \<in> set (butlast (split_slash ''a/#/c'')) \<and> \<not> topic_matches ''a/b/c'' ''a/#/c''
   \<and> topic_matches ''device/42/telemetry'' ''device/+/telemetry''
   \<and> spec_matches ''device/42/telemetry'' ''device/+/telemetry''"
proof -
  have h: "''#'' \<in> set (butlast (split_slash ''a/#/c''))" by simp
  have m: "topic_matches ''device/42/telemetry'' ''device/+/telemetry''"
    by (simp add: topic_matches_def)
  from h m topic_matches_refines_spec [of "''a/b/c''" "''a/#/c''"]
       topic_matches_refines_spec [of "''device/42/telemetry''" "''device/+/telemetry''"]
  show ?thesis by blast
qed

subsection \<open>Facts about the connection state\<close>

lemma call_eq:
  "call T c r = (T (calls c) r, c\<lparr>calls := calls c @ [(r, T (calls c) r)]\<rparr>)"
  by (simp add: call_def Let_def)

lemma call_frame: "\<exists>cs. snd (call T c r) = c\<lparr>calls := cs\<rparr>"
  by (auto simp: call_def Let_def)

lemma subscribe_each_frame: "\<exists>cs. snd (subscribe_each T c xs) = c\<lparr>calls := cs\<rparr>"
proof (induction xs arbitrary: c)
  case Nil
  have "c = c\<lparr>calls := calls c\<rparr>" by simp
  then show ?case by (metis subscribe_each.simps(1) snd_conv)
next
  case (Cons x xs)
  obtain t q where x: "x = (t, q)" by (cases x)
  show ?case
  proof (cases "T (calls c) (Subscribe t q)")
    case (Rc r)
    from Cons.IH [of "c\<lparr>calls := calls c @ [(Subscribe t q, Rc r)]\<rparr>"]
    show ?thesis using Rc x by (auto simp: call_def Let_def)
  next
    case Raised
    then show ?thesis using x by (auto simp: call_def Let_def)
  qed
qed

lemma resubscribe_all_frame: "\<exists>cs. snd (resubscribe_all T c) = c\<lparr>calls := cs\<rparr>"
proof -
  obtain cs1 where 1: "snd (subscribe_each T c (map (\<lambda>(topic, sub). (topic, sub_qos sub)) (subscriptions c))) = c\<lparr>calls := cs1\<rparr>"
    using subscribe_each_frame by blast
  obtain cs2 where 2: "snd (subscribe_each T (c\<lparr>calls := cs1\<rparr>) (map (\<lambda>(topic, callback). (topic, 1)) (wildcard_callbacks c))) = c\<lparr>calls := cs1\<rparr>\<lparr>calls := cs2\<rparr>"
    using subscribe_each_frame by blast
  show ?thesis
  proof (cases "subscribe_each T c (map (\<lambda>(topic, sub). (topic, sub_qos sub)) (subscriptions c))")
    case (Pair st c')
    with 1 have c': "c' = c\<lparr>calls := cs1\<rparr>" by simp
    show ?thesis
    proof (cases st)
      case Returned
      with Pair c' 2 show ?thesis by (auto simp: resubscribe_all_def)
    next
      case Propagated
      with Pair c' show ?thesis by (auto simp: resubscribe_all_def)
    qed
  qed
qed

lemma on_connect_inv: "client_inv (snd (on_connect T c rc))"
proof (cases "rc = 0")
  case True
  obtain cs where r: "snd (resubscribe_all T (c\<lparr>connected_flag := True, state := CONNECTED\<rparr>))
      = c\<lparr>connected_flag := True, state := CONNECTED\<rparr>\<lparr>calls := cs\<rparr>"
    using resubscribe_all_frame by blast
  show ?thesis
  proof (cases "resubscribe_all T (c\<lparr>connected_flag := True, state := CONNECTED\<rparr>)")
    case (Pair st c')
    with r have "c' = c\<lparr>connected_flag := True, state := CONNECTED\<rparr>\<lparr>calls := cs\<rparr>" by simp
    with Pair True show ?thesis
      by (cases st) (auto simp: on_connect_def client_inv_def is_connected_def get_state_def start_queue_processor_def)
  qed
next
  case False
  then show ?thesis
    by (simp add: on_connect_def client_inv_def is_connected_def get_state_def add_log_def)
qed

lemma deliver_inv: "client_inv c \<Longrightarrow> client_inv (deliver T c ev)"
  by (cases ev) (simp_all add: deliver_def on_connect_inv)

lemma reconnect_loop_inv: "client_inv c \<Longrightarrow> client_inv (reconnect_loop T c d evs)"
proof (induction evs arbitrary: c d)
  case Nil
  then show ?case by simp
next
  case (Cons ev evs)
  have a: "client_inv (add_log e c)" for e
    using Cons.prems by (simp add: client_inv_def add_log_def is_connected_def get_state_def)
  have b: "client_inv (snd (call T (sleep d c) Reconnect))"
    using Cons.prems by (simp add: client_inv_def call_def Let_def sleep_def is_connected_def get_state_def)
  have b': "client_inv (add_log e (snd (call T (sleep d c) Reconnect)))" for e
    using b by (simp add: client_inv_def add_log_def is_connected_def get_state_def)
  show ?case
  proof (cases "call T (sleep d c) Reconnect")
    case (Pair res c2)
    with b b' have c2: "client_inv c2" "\<And>e. client_inv (add_log e c2)" by simp_all
    show ?thesis
      using Pair Cons.prems a c2 Cons.IH deliver_inv
      by (cases res) simp_all
  qed
qed

lemma client_inv_add_log: "client_inv (add_log e c) = client_inv c"
  by (simp add: client_inv_def add_log_def is_connected_def get_state_def)

lemma not_connected_inv: "\<not> connected_flag c \<Longrightarrow> client_inv c"
  by (simp add: client_inv_def is_connected_def)


lemma connect_inv: "client_inv c \<Longrightarrow> client_inv (snd (connect T c ev))"
proof (cases "connected_flag c")
  case True
  assume "client_inv c"
  with True show ?thesis
    by (simp add: connect_def client_inv_add_log)
next
  case False
  define r1 where "r1 = T (calls c) Connect"
  define c2 where "c2 = c\<lparr>state := CONNECTING, calls := calls c @ [(Connect, r1)]\<rparr>"
  define r2 where "r2 = T (calls c2) LoopStart"
  define c3 where "c3 = c2\<lparr>calls := calls c2 @ [(LoopStart, r2)]\<rparr>"
  have k1: "call T (c\<lparr>state := CONNECTING\<rparr>) Connect = (r1, c2)"
    by (simp add: call_eq r1_def c2_def)
  have k2: "call T c2 LoopStart = (r2, c3)"
    by (simp add: call_eq r2_def c3_def)
  have n2: "\<not> connected_flag c2" using False by (simp add: c2_def)
  have n3: "\<not> connected_flag c3" using n2 by (simp add: c3_def)
  have e2: "client_inv ((add_log e c2)\<lparr>state := ERROR, errors := k\<rparr>)" for e k
    using n2 by (simp add: not_connected_inv add_log_def)
  have e3: "client_inv ((add_log e c3)\<lparr>state := ERROR, errors := k\<rparr>)" for e k
    using n3 by (simp add: not_connected_inv add_log_def)
  have d: "client_inv (deliver T c3 ev)"
    using n3 by (simp add: deliver_inv not_connected_inv)
  show ?thesis
    using False k1 k2 e2 e3 d
    by (cases r1; cases r2) (simp_all add: connect_def Let_def client_inv_add_log)
qed



lemma disconnect_eq:
  "disconnect T c =
     (let c1 = c\<lparr>queue_running := False\<rparr>;
          r1 = T (calls c) LoopStop;
          c2 = c1\<lparr>calls := calls c @ [(LoopStop, r1)]\<rparr>;
          r2 = T (calls c2) Disconnect;
          c3 = c2\<lparr>calls := calls c2 @ [(Disconnect, r2)]\<rparr>
      in if r1 = Raised then (Returned, add_log (LogError ''Disconnect error'') c2)
         else if r2 = Raised then (Returned, add_log (LogError ''Disconnect error'') c3)
         else (Returned, c3\<lparr>connected_flag := False, state := DISCONNECTED\<rparr>))"
proof (cases "T (calls c) LoopStop")
  case Raised
  then show ?thesis
    by (simp add: disconnect_def disconnect_body_def call_eq stop_queue_processor_def)
next
  case (Rc r)
  then show ?thesis
    by (cases "T (calls c @ [(LoopStop, Rc r)]) Disconnect")
       (simp_all add: disconnect_def disconnect_body_def call_eq stop_queue_processor_def Let_def)
qed

lemma disconnect_inv: "client_inv c \<Longrightarrow> client_inv (snd (disconnect T c))"
  by (simp add: disconnect_eq Let_def client_inv_add_log not_connected_inv)
     (simp add: client_inv_def is_connected_def get_state_def)



lemma on_disconnect_inv: "client_inv (on_disconnect T c rc evs)"
proof -
  define c3 where "c3 = stop_queue_processor
      (if rc = 0 then c\<lparr>connected_flag := False\<rparr>\<lparr>state := DISCONNECTED\<rparr>
       else add_log (LogWarning ''Unexpected disconnect'') (c\<lparr>connected_flag := False\<rparr>\<lparr>state := RECONNECTING\<rparr>))"
  have "\<not> connected_flag c3"
    by (simp add: c3_def stop_queue_processor_def add_log_def)
  then have i: "client_inv c3" by (rule not_connected_inv)
  have r: "client_inv (handle_reconnect T c3 evs)"
    unfolding handle_reconnect_def
    by (rule reconnect_loop_inv) (use i in \<open>simp add: client_inv_def is_connected_def get_state_def\<close>)
  have "on_disconnect T c rc evs =
      (if auto_reconnect (config c3) \<and> rc \<noteq> 0 then handle_reconnect T c3 evs else c3)"
    unfolding on_disconnect_def Let_def c3_def ..
  with i r show ?thesis by simp
qed

lemma init_inv: "client_inv (init cfg)"
  by (simp add: init_def not_connected_inv)

text \<open>
  C9. The invariant "\<^verbatim>\<open>connected\<close> is set only while \<^verbatim>\<open>state\<close> is \<^verbatim>\<open>CONNECTED\<close>" holds
  after construction and is kept by \<^verbatim>\<open>connect\<close>, \<^verbatim>\<open>disconnect\<close>, \<^verbatim>\<open>_on_connect\<close> and
  \<^verbatim>\<open>_on_disconnect\<close>, whatever the Paho client answers and whichever callbacks arrive;
  so \<^verbatim>\<open>is_connected()\<close> is true only while \<^verbatim>\<open>get_state()\<close> reports \<^verbatim>\<open>CONNECTED\<close>.
\<close>

theorem connected_implies_state_connected:
  "client_inv (init cfg)
   \<and> (client_inv c \<longrightarrow>
        client_inv (snd (connect T c connack))
      \<and> client_inv (snd (disconnect T c))
      \<and> client_inv (snd (on_connect T c rc))
      \<and> client_inv (on_disconnect T c rc' evs))"
  by (simp add: init_inv connect_inv disconnect_inv on_connect_inv on_disconnect_inv)

text \<open>
  C8, as amended. \<^verbatim>\<open>disconnect\<close> never raises and always stops the queue worker. When
  \<^verbatim>\<open>loop_stop\<close> and \<^verbatim>\<open>disconnect\<close> of the Paho client both return, it has called them
  in that order and leaves \<^verbatim>\<open>connected = False\<close> and \<^verbatim>\<open>state = DISCONNECTED\<close>.
  When one of them raises, \<^verbatim>\<open>connected\<close> and \<^verbatim>\<open>state\<close> are left as they were.
\<close>

theorem disconnect_never_raises:
  "fst (disconnect T c) = Returned
   \<and> \<not> queue_running (snd (disconnect T c))
   \<and> (T (calls c) LoopStop \<noteq> Raised
        \<and> T (calls c @ [(LoopStop, T (calls c) LoopStop)]) Disconnect \<noteq> Raised
      \<longrightarrow> \<not> connected_flag (snd (disconnect T c))
        \<and> state (snd (disconnect T c)) = DISCONNECTED
        \<and> map fst (calls (snd (disconnect T c))) = map fst (calls c) @ [LoopStop, Disconnect])
   \<and> (T (calls c) LoopStop = Raised
        \<or> T (calls c @ [(LoopStop, T (calls c) LoopStop)]) Disconnect = Raised
      \<longrightarrow> connected_flag (snd (disconnect T c)) = connected_flag c
        \<and> state (snd (disconnect T c)) = state c)"
proof -
  define r1 where "r1 = T (calls c) LoopStop"
  define r2 where "r2 = T (calls c @ [(LoopStop, r1)]) Disconnect"
  have s: "fst (disconnect T c) = Returned"
    by (simp add: disconnect_eq Let_def)
  have q: "\<not> queue_running (snd (disconnect T c))"
    by (simp add: disconnect_eq Let_def add_log_def)
  have k: "snd (disconnect T c) =
      c\<lparr>queue_running := False, calls := calls c @ [(LoopStop, r1), (Disconnect, r2)],
         connected_flag := False, state := DISCONNECTED\<rparr>"
    if "r1 \<noteq> Raised" "r2 \<noteq> Raised"
    using that by (simp add: disconnect_eq Let_def r1_def r2_def)
  have u1: "connected_flag (snd (disconnect T c)) = connected_flag c
        \<and> state (snd (disconnect T c)) = state c" if "r1 = Raised"
    using that by (simp add: disconnect_eq Let_def r1_def add_log_def)
  have u2: "connected_flag (snd (disconnect T c)) = connected_flag c
        \<and> state (snd (disconnect T c)) = state c" if "r1 \<noteq> Raised" "r2 = Raised"
    using that by (simp add: disconnect_eq Let_def r1_def r2_def add_log_def)
  show ?thesis
  proof (cases "r1 \<noteq> Raised \<and> r2 \<noteq> Raised")
    case True
    with k have "snd (disconnect T c) =
      c\<lparr>queue_running := False, calls := calls c @ [(LoopStop, r1), (Disconnect, r2)],
         connected_flag := False, state := DISCONNECTED\<rparr>" by blast
    with s True show ?thesis unfolding r1_def r2_def by simp
  next
    case False
    then have "connected_flag (snd (disconnect T c)) = connected_flag c
        \<and> state (snd (disconnect T c)) = state c"
      using u1 u2 by blast
    with s q False show ?thesis unfolding r1_def r2_def by blast
  qed
qed

theorem disconnect_never_raises_witness:
  "fst (disconnect accepting connected_client) = Returned
   \<and> \<not> queue_running (snd (disconnect accepting connected_client))
   \<and> \<not> connected_flag (snd (disconnect accepting connected_client))
   \<and> state (snd (disconnect accepting connected_client)) = DISCONNECTED
   \<and> refusing_disconnect (calls connected_client @ [(LoopStop, Rc 0)]) Disconnect = Raised
   \<and> connected_flag (snd (disconnect refusing_disconnect connected_client))
   \<and> state (snd (disconnect refusing_disconnect connected_client)) = CONNECTED"
proof -
  have a: "fst (disconnect accepting connected_client) = Returned
   \<and> \<not> queue_running (snd (disconnect accepting connected_client))
   \<and> \<not> connected_flag (snd (disconnect accepting connected_client))
   \<and> state (snd (disconnect accepting connected_client)) = DISCONNECTED"
    using disconnect_never_raises [of accepting connected_client]
    by (simp add: accepting_def)
  have r: "refusing_disconnect (calls connected_client) LoopStop = Rc 0"
    "refusing_disconnect (calls connected_client @ [(LoopStop, Rc 0)]) Disconnect = Raised"
    by (simp_all add: refusing_disconnect_def)
  have k: "connected_flag connected_client" "state connected_client = CONNECTED"
    by (simp_all add: connected_client_def)
  have b: "connected_flag (snd (disconnect refusing_disconnect connected_client))
   \<and> state (snd (disconnect refusing_disconnect connected_client)) = CONNECTED"
    using disconnect_never_raises [of refusing_disconnect connected_client] r k
    by simp
  from a r(2) b show ?thesis by blast
qed

text \<open>
  C8 as stated fails when the Paho client raises: the handler logs the error and returns
  before the flags are reset, so a connected client stays \<^verbatim>\<open>connected\<close> and \<^verbatim>\<open>CONNECTED\<close>.
\<close>

theorem disconnect_transport_raises_counterexample:
  "fst (disconnect refusing_disconnect connected_client) = Returned
   \<and> connected_flag (snd (disconnect refusing_disconnect connected_client))
   \<and> state (snd (disconnect refusing_disconnect connected_client)) = CONNECTED"
  by (simp add: disconnect_eq Let_def refusing_disconnect_def connected_client_def init_def
        add_log_def)

theorem connected_implies_state_connected_witness:
  "client_inv (init default_config)
   \<and> client_inv (snd (connect accepting (init default_config) (Some 0)))
   \<and> is_connected (snd (connect accepting (init default_config) (Some 0)))
   \<and> client_inv (snd (disconnect accepting connected_client))
   \<and> client_inv (on_disconnect accepting connected_client 1 [None, Some 0])"
proof -
  have i: "client_inv (init default_config)"
    using connected_implies_state_connected [of default_config] by simp
  have c: "is_connected (snd (connect accepting (init default_config) (Some 0)))"
    by (simp add: connect_def call_eq accepting_def deliver_def on_connect_def
          resubscribe_all_def start_queue_processor_def init_def is_connected_def Let_def)
  have k: "client_inv connected_client"
    by (simp add: connected_client_def client_inv_def get_state_def)
  from i k c
    connected_implies_state_connected [of default_config "init default_config" accepting "Some 0"]
    connected_implies_state_connected [of default_config connected_client accepting _ _ 1 "[None, Some 0]"]
  show ?thesis by blast
qed

subsection \<open>Facts about publishing and the outbound queue\<close>

lemma queue_message_eq:
  "queue_message now c topic payload q retain =
     (if queue_full c then add_log (LogError ''Failed to queue message'') c
      else c\<lparr>message_queue := message_queue c @
                [\<lparr>msg_topic = topic, msg_payload = payload, msg_qos = q,
                  msg_retain = retain, msg_timestamp = now\<rparr>],
              messages_queued := messages_queued c + 1\<rparr>)"
  by (simp add: queue_message_def Let_def)

text \<open>
  C3, as amended. A \<^verbatim>\<open>publish\<close> made while not connected, with a payload that converts to
  a string, makes no call on the Paho client and returns \<^verbatim>\<open>False\<close>. When the queue is not
  full the message is appended and \<^verbatim>\<open>messages_queued\<close> grows by one; when it is full the
  only effect is an error in the log: the queue and every counter stay as they were.
\<close>

theorem publish_while_disconnected:
  assumes "\<not> connected_flag c" and "to_str payload = Some s"
  shows "fst (publish T to_str now c topic payload q retain) = False
     \<and> calls (snd (publish T to_str now c topic payload q retain)) = calls c
     \<and> errors (snd (publish T to_str now c topic payload q retain)) = errors c
     \<and> (if queue_full c
        then snd (publish T to_str now c topic payload q retain)
               = add_log (LogError ''Failed to queue message'') c
        else snd (publish T to_str now c topic payload q retain)
               = c\<lparr>message_queue := message_queue c @
                      [\<lparr>msg_topic = topic, msg_payload = s, msg_qos = q,
                        msg_retain = retain, msg_timestamp = now\<rparr>],
                    messages_queued := messages_queued c + 1\<rparr>)"
proof -
  have p: "publish T to_str now c topic payload q retain
        = (False, queue_message now c topic s q retain)"
    using assms by (simp add: publish_def)
  show ?thesis
    unfolding p by (simp add: queue_message_eq add_log_def)
qed

lemma after_one_eq: "after_one = (init capacity_two)\<lparr>message_queue :=
     [\<lparr>msg_topic = ''t/1'', msg_payload = ''p1'', msg_qos = 1, msg_retain = False, msg_timestamp = 1\<rparr>],
     messages_queued := 1\<rparr>"
  by (simp add: after_one_def publish_def queue_message_eq queue_full_def init_def
        capacity_two_def default_config_def)

lemma after_two_eq: "after_two = (init capacity_two)\<lparr>message_queue :=
     [\<lparr>msg_topic = ''t/1'', msg_payload = ''p1'', msg_qos = 1, msg_retain = False, msg_timestamp = 1\<rparr>,
      \<lparr>msg_topic = ''t/2'', msg_payload = ''p2'', msg_qos = 1, msg_retain = False, msg_timestamp = 2\<rparr>],
     messages_queued := 2\<rparr>"
  by (simp add: after_two_def after_one_eq publish_def queue_message_eq queue_full_def init_def
        capacity_two_def default_config_def)

lemma after_three_eq: "after_three = add_log (LogError ''Failed to queue message'') after_two"
  by (simp add: after_three_def after_two_eq publish_def queue_message_eq queue_full_def init_def
        capacity_two_def default_config_def)

text \<open>
  C3 as stated fails: with room for two messages the third \<^verbatim>\<open>publish\<close> returns what the
  second returned, so the caller is not told that the queue is full; the message is in no
  queue and the error counter is still zero. \<^verbatim>\<open>messages_queued\<close> is 2, as stated.
\<close>

theorem publish_queue_full_counterexample:
  "fst (publish accepting Some 3 after_two ''t/3'' ''p3'' 1 False)
     = fst (publish accepting Some 2 after_one ''t/2'' ''p2'' 1 False)
   \<and> length (message_queue after_one) = 1
   \<and> length (message_queue after_two) = 2
   \<and> message_queue after_three = message_queue after_two
   \<and> messages_queued after_three = 2
   \<and> errors after_three = 0"
  by (simp add: after_three_eq after_two_eq after_one_eq publish_def add_log_def init_def)

theorem publish_while_disconnected_witness:
  "\<not> connected_flag after_two \<and> queue_full after_two \<and> \<not> queue_full after_one
   \<and> fst (publish accepting Some 3 after_two ''t/3'' ''p3'' 1 False) = False
   \<and> snd (publish accepting Some 3 after_two ''t/3'' ''p3'' 1 False)
        = add_log (LogError ''Failed to queue message'') after_two
   \<and> messages_queued (snd (publish accepting Some 3 after_two ''t/3'' ''p3'' 1 False)) = 2
   \<and> messages_queued (snd (publish accepting Some 2 after_one ''t/2'' ''p2'' 1 False)) = 2
   \<and> length (message_queue (snd (publish accepting Some 2 after_one ''t/2'' ''p2'' 1 False))) = 2"
proof -
  have n2: "\<not> connected_flag after_two" by (simp add: after_two_eq init_def)
  have n1: "\<not> connected_flag after_one" by (simp add: after_one_eq init_def)
  have f2: "queue_full after_two"
    by (simp add: after_two_eq queue_full_def init_def capacity_two_def default_config_def)
  have f1: "\<not> queue_full after_one"
    by (simp add: after_one_eq queue_full_def init_def capacity_two_def default_config_def)
  have s: "Some ''p3'' = Some ''p3''" "Some ''p2'' = Some ''p2''" by simp_all
  have m2: "messages_queued after_two = 2" by (simp add: after_two_eq)
  have m1: "messages_queued after_one = 1" "length (message_queue after_one) = 1"
    by (simp_all add: after_one_eq)
  note a = publish_while_disconnected [where c = after_two and to_str = Some
      and payload = "''p3''" and s = "''p3''" and T = accepting and now = 3
      and topic = "''t/3''" and q = 1 and retain = False, OF n2]
  note b = publish_while_disconnected [where c = after_one and to_str = Some
      and payload = "''p2''" and s = "''p2''" and T = accepting and now = 2
      and topic = "''t/2''" and q = 1 and retain = False, OF n1]
  from a f2 have a': "fst (publish accepting Some 3 after_two ''t/3'' ''p3'' 1 False) = False"
    "snd (publish accepting Some 3 after_two ''t/3'' ''p3'' 1 False)
        = add_log (LogError ''Failed to queue message'') after_two" by simp_all
  from b f1 have b': "snd (publish accepting Some 2 after_one ''t/2'' ''p2'' 1 False)
        = after_one\<lparr>message_queue := message_queue after_one @
                      [\<lparr>msg_topic = ''t/2'', msg_payload = ''p2'', msg_qos = 1,
                        msg_retain = False, msg_timestamp = 2\<rparr>],
                    messages_queued := messages_queued after_one + 1\<rparr>" by simp
  show ?thesis
    unfolding a' b' using n2 f2 f1 m2 m1 by (simp add: add_log_def)
qed

lemma step_empty: "message_queue c = [] \<Longrightarrow> process_queue_step T now c = Some c"
  by (simp add: process_queue_step_def)

lemma step_expired:
  "message_queue c = m # rest \<Longrightarrow> now - msg_timestamp m > of_int (message_timeout (config c))
   \<Longrightarrow> process_queue_step T now c
       = Some (add_log (LogWarning ''Dropping old message'') (c\<lparr>message_queue := rest\<rparr>))"
  by (simp add: process_queue_step_def Let_def)

lemma step_sent:
  "message_queue c = m # rest \<Longrightarrow> \<not> now - msg_timestamp m > of_int (message_timeout (config c))
   \<Longrightarrow> connected_flag c \<Longrightarrow> T (calls c) (publish_of m) = Rc 0
   \<Longrightarrow> process_queue_step T now c
       = Some (c\<lparr>message_queue := rest, calls := calls c @ [(publish_of m, Rc 0)],
                 messages_sent := messages_sent c + 1\<rparr>)"
  by (simp add: process_queue_step_def Let_def call_eq publish_of_def)

lemma step_failed:
  "message_queue c = m # rest \<Longrightarrow> \<not> now - msg_timestamp m > of_int (message_timeout (config c))
   \<Longrightarrow> connected_flag c \<Longrightarrow> T (calls c) (publish_of m) = Rc r \<Longrightarrow> r \<noteq> 0
   \<Longrightarrow> \<not> (0 < queue_size (config c) \<and> queue_size (config c) \<le> int (length rest))
   \<Longrightarrow> process_queue_step T now c
       = Some (c\<lparr>message_queue := rest @ [m], calls := calls c @ [(publish_of m, Rc r)],
                 slept := slept c @ [1]\<rparr>)"
  by (simp add: process_queue_step_def Let_def call_eq publish_of_def put_def queue_full_def
        sleep_def)

lemma sent_publishes_append:
  "sent_publishes (c\<lparr>calls := calls c @ [(publish_of m, res)]\<rparr>)
     = sent_publishes c @ (if res = Rc 0 then [publish_of m] else [])"
  by (simp add: sent_publishes_def publish_of_def)

text \<open>
  C4, as amended. A message taken from the queue at a time strictly later than its
  timestamp plus \<^verbatim>\<open>message_timeout\<close> is not sent and not put back: the pass removes it,
  logs a warning, makes no call on the Paho client and changes no counter.
  A message taken at that time or earlier is not dropped: while connected it is handed to
  the Paho client, and counted as sent when the client accepts it.
\<close>

theorem expired_message_dropped:
  assumes "message_queue c = m # rest"
      and "now > msg_timestamp m + of_int (message_timeout (config c))"
  shows "process_queue_step T now c
           = Some (add_log (LogWarning ''Dropping old message'') (c\<lparr>message_queue := rest\<rparr>))
       \<and> (\<forall>c'. process_queue_step T now c = Some c' \<longrightarrow>
             calls c' = calls c \<and> message_queue c' = rest
           \<and> messages_sent c' = messages_sent c \<and> errors c' = errors c
           \<and> messages_queued c' = messages_queued c)
       \<and> (\<forall>U tm. tm \<le> msg_timestamp m + of_int (message_timeout (config c))
              \<and> connected_flag c \<and> U (calls c) (publish_of m) = Rc 0
            \<longrightarrow> process_queue_step U tm c
                  = Some (c\<lparr>message_queue := rest,
                            calls := calls c @ [(publish_of m, Rc 0)],
                            messages_sent := messages_sent c + 1\<rparr>))"
proof -
  from assms(2) have "now - msg_timestamp m > of_int (message_timeout (config c))" by simp
  from step_expired [OF assms(1) this, of T]
  have a: "process_queue_step T now c
           = Some (add_log (LogWarning ''Dropping old message'') (c\<lparr>message_queue := rest\<rparr>))" .
  have b: "\<forall>c'. process_queue_step T now c = Some c' \<longrightarrow>
             calls c' = calls c \<and> message_queue c' = rest
           \<and> messages_sent c' = messages_sent c \<and> errors c' = errors c
           \<and> messages_queued c' = messages_queued c"
    unfolding a by (simp add: add_log_def)
  have g: "process_queue_step U tm c
                  = Some (c\<lparr>message_queue := rest,
                            calls := calls c @ [(publish_of m, Rc 0)],
                            messages_sent := messages_sent c + 1\<rparr>)"
    if "tm \<le> msg_timestamp m + of_int (message_timeout (config c))"
       "connected_flag c" "U (calls c) (publish_of m) = Rc 0" for U tm
  proof -
    from that(1) have "\<not> tm - msg_timestamp m > of_int (message_timeout (config c))"
      by simp
    from step_sent [where T = U, OF assms(1) this that(2) that(3)] show ?thesis .
  qed
  from a b g show ?thesis by blast
qed

text \<open>
  C4 as stated fails at the boundary: a message stamped 0 with a timeout of 30 that is
  taken at time 30 is sent (the test is \<^verbatim>\<open>age > message_timeout\<close>).
\<close>

theorem ttl_boundary_counterexample:
  "map_option sent_publishes
     (process_queue_step accepting 30 (worker_client [queued ''m1'' 0]))
     = Some [publish_of (queued ''m1'' 0)]
   \<and> (30::real) \<ge> msg_timestamp (queued ''m1'' 0)
                    + of_int (message_timeout (config (worker_client [queued ''m1'' 0])))
   \<and> map_option messages_sent
       (process_queue_step accepting 30 (worker_client [queued ''m1'' 0])) = Some 1"
proof -
  have q: "message_queue (worker_client [queued ''m1'' 0]) = queued ''m1'' 0 # []"
    by (simp add: worker_client_def)
  have a: "\<not> 30 - msg_timestamp (queued ''m1'' 0)
        > of_int (message_timeout (config (worker_client [queued ''m1'' 0])))"
    by (simp add: worker_client_def connected_client_def init_def default_config_def queued_def)
  have k: "connected_flag (worker_client [queued ''m1'' 0])"
    by (simp add: worker_client_def connected_client_def)
  have t: "accepting (calls (worker_client [queued ''m1'' 0])) (publish_of (queued ''m1'' 0)) = Rc 0"
    by (simp add: accepting_def)
  have c: "calls (worker_client [queued ''m1'' 0]) = []"
       "messages_sent (worker_client [queued ''m1'' 0]) = 0"
    by (simp_all add: worker_client_def connected_client_def init_def)
  have b: "(30::real) \<ge> msg_timestamp (queued ''m1'' 0)
                    + of_int (message_timeout (config (worker_client [queued ''m1'' 0])))"
    by (simp add: worker_client_def connected_client_def init_def default_config_def queued_def)
  show ?thesis
    unfolding step_sent [where T = accepting, OF q a k t]
    using b c by (simp add: sent_publishes_def publish_of_def)
qed

theorem expired_message_dropped_witness:
  "message_queue (worker_client [queued ''m1'' 0, queued ''m2'' 5]) = [queued ''m1'' 0, queued ''m2'' 5]
   \<and> (31::real) > msg_timestamp (queued ''m1'' 0)
        + of_int (message_timeout (config (worker_client [queued ''m1'' 0, queued ''m2'' 5])))
   \<and> map_option message_queue
        (process_queue_step accepting 31 (worker_client [queued ''m1'' 0, queued ''m2'' 5]))
        = Some [queued ''m2'' 5]
   \<and> map_option calls
        (process_queue_step accepting 31 (worker_client [queued ''m1'' 0, queued ''m2'' 5]))
        = Some []"
proof -
  have q: "message_queue (worker_client [queued ''m1'' 0, queued ''m2'' 5])
        = queued ''m1'' 0 # [queued ''m2'' 5]"
    by (simp add: worker_client_def)
  have a: "(31::real) > msg_timestamp (queued ''m1'' 0)
        + of_int (message_timeout (config (worker_client [queued ''m1'' 0, queued ''m2'' 5])))"
    by (simp add: worker_client_def connected_client_def init_def default_config_def queued_def)
  have c: "calls (worker_client [queued ''m1'' 0, queued ''m2'' 5]) = []"
    by (simp add: worker_client_def connected_client_def init_def)
  from expired_message_dropped [where T = accepting, OF q a, THEN conjunct1] q a c
  show ?thesis by (simp add: add_log_def)
qed

lemma process_queue_one:
  "queue_running c \<Longrightarrow> process_queue_step T now c = Some c'
   \<Longrightarrow> process_queue T c (now # nows) = process_queue T c' nows"
  by simp

lemma requeue_trace:
  assumes conn: "connected_flag c" and run: "queue_running c"
      and queue: "message_queue c = [m1, m2, m3]"
      and fail: "T (calls c) (publish_of m1) = Rc r" "r \<noteq> 0"
      and later: "\<forall>h req. h \<noteq> calls c \<longrightarrow> T h req = Rc 0"
      and room: "\<not> (0 < queue_size (config c) \<and> queue_size (config c) \<le> 2)"
      and fresh: "ta - msg_timestamp m1 \<le> of_int (message_timeout (config c))"
                 "tb - msg_timestamp m2 \<le> of_int (message_timeout (config c))"
                 "tc - msg_timestamp m3 \<le> of_int (message_timeout (config c))"
                 "td - msg_timestamp m1 \<le> of_int (message_timeout (config c))"
  shows "process_queue T c [ta]
           = Some (c\<lparr>message_queue := [m2, m3, m1],
                     calls := calls c @ [(publish_of m1, Rc r)],
                     slept := slept c @ [1]\<rparr>)
       \<and> (\<exists>c'. process_queue T c [ta, tb, tc, td] = Some c'
              \<and> sent_publishes c' = sent_publishes c @ [publish_of m2, publish_of m3, publish_of m1]
              \<and> message_queue c' = []
              \<and> slept c' = slept c @ [1])"
proof -
  define c1 where "c1 = c\<lparr>message_queue := [m2, m3, m1],
                     calls := calls c @ [(publish_of m1, Rc r)], slept := slept c @ [1]\<rparr>"
  define c2 where "c2 = c1\<lparr>message_queue := [m3, m1],
                     calls := calls c1 @ [(publish_of m2, Rc 0)],
                     messages_sent := messages_sent c1 + 1\<rparr>"
  define c3 where "c3 = c2\<lparr>message_queue := [m1],
                     calls := calls c2 @ [(publish_of m3, Rc 0)],
                     messages_sent := messages_sent c2 + 1\<rparr>"
  define c4 where "c4 = c3\<lparr>message_queue := [],
                     calls := calls c3 @ [(publish_of m1, Rc 0)],
                     messages_sent := messages_sent c3 + 1\<rparr>"
  have s1: "process_queue_step T ta c = Some c1"
    unfolding c1_def
    using step_failed [where T = T and c = c and m = m1 and rest = "[m2, m3]" and now = ta and r = r]
      conn queue fail room fresh(1) by simp
  have k1: "connected_flag c1" "queue_running c1" "message_queue c1 = m2 # [m3, m1]"
      "config c1 = config c" "T (calls c1) (publish_of m2) = Rc 0"
    using conn run later by (simp_all add: c1_def)
  have s2: "process_queue_step T tb c1 = Some c2"
    unfolding c2_def
    using step_sent [where T = T and c = c1 and m = m2 and rest = "[m3, m1]" and now = tb]
      k1 fresh(2) by simp
  have k2: "connected_flag c2" "queue_running c2" "message_queue c2 = m3 # [m1]"
      "config c2 = config c" "T (calls c2) (publish_of m3) = Rc 0"
    using k1 later by (simp_all add: c2_def c1_def)
  have s3: "process_queue_step T tc c2 = Some c3"
    unfolding c3_def
    using step_sent [where T = T and c = c2 and m = m3 and rest = "[m1]" and now = tc]
      k2 fresh(3) by simp
  have k3: "connected_flag c3" "queue_running c3" "message_queue c3 = m1 # []"
      "config c3 = config c" "T (calls c3) (publish_of m1) = Rc 0"
    using k2 later by (simp_all add: c3_def c2_def c1_def)
  have s4: "process_queue_step T td c3 = Some c4"
    unfolding c4_def
    using step_sent [where T = T and c = c3 and m = m1 and rest = "[]" and now = td]
      k3 fresh(4) by simp
  have first: "process_queue T c [ta] = Some c1"
    using run s1 by simp
  have all: "process_queue T c [ta, tb, tc, td] = Some c4"
    using run s1 k1(2) s2 k2(2) s3 k3(2) s4 by simp
  have sent: "sent_publishes c4 = sent_publishes c @ [publish_of m2, publish_of m3, publish_of m1]"
    using fail(2) by (simp add: c4_def c3_def c2_def c1_def sent_publishes_def publish_of_def)
  have rest: "message_queue c4 = []" "slept c4 = slept c @ [1]"
    by (simp_all add: c4_def c3_def c2_def c1_def)
  from first all sent rest show ?thesis unfolding c1_def by blast
qed

text \<open>
  C2, as amended. When the send of the oldest message fails with a result code, the worker
  puts the message at the tail of the queue and sleeps one second. So for a queue
  \<open>[m1, m2, m3]\<close> of messages that do not expire, where the first attempt fails and the
  later ones succeed, the messages are sent in the order \<open>m2, m3, m1\<close>.
\<close>

theorem failed_send_requeued_at_back:
  assumes conn: "connected_flag c" and run: "queue_running c"
      and queue: "message_queue c = [m1, m2, m3]"
      and fail: "T (calls c) (publish_of m1) = Rc r" "r \<noteq> 0"
      and later: "\<forall>h req. h \<noteq> calls c \<longrightarrow> T h req = Rc 0"
      and room: "\<not> (0 < queue_size (config c) \<and> queue_size (config c) \<le> 2)"
      and fresh: "ta - msg_timestamp m1 \<le> of_int (message_timeout (config c))"
                 "tb - msg_timestamp m2 \<le> of_int (message_timeout (config c))"
                 "tc - msg_timestamp m3 \<le> of_int (message_timeout (config c))"
                 "td - msg_timestamp m1 \<le> of_int (message_timeout (config c))"
  shows "process_queue T c [ta]
           = Some (c\<lparr>message_queue := [m2, m3, m1],
                     calls := calls c @ [(publish_of m1, Rc r)],
                     slept := slept c @ [1]\<rparr>)
       \<and> (\<exists>c'. process_queue T c [ta, tb, tc, td] = Some c'
              \<and> sent_publishes c' = sent_publishes c @ [publish_of m2, publish_of m3, publish_of m1]
              \<and> message_queue c' = []
              \<and> slept c' = slept c @ [1])
       \<and> (\<forall>U d m rest now k.
              connected_flag d \<and> message_queue d = m # rest
              \<and> now - msg_timestamp m \<le> of_int (message_timeout (config d))
              \<and> U (calls d) (publish_of m) = Rc k \<and> k \<noteq> 0
              \<and> \<not> (0 < queue_size (config d) \<and> queue_size (config d) \<le> int (length rest))
            \<longrightarrow> process_queue_step U now d
                  = Some (d\<lparr>message_queue := rest @ [m],
                            calls := calls d @ [(publish_of m, Rc k)],
                            slept := slept d @ [1]\<rparr>))"
proof -
  note tr = requeue_trace [OF assms]
  have g: "process_queue_step U now d
                  = Some (d\<lparr>message_queue := rest @ [m],
                            calls := calls d @ [(publish_of m, Rc k)],
                            slept := slept d @ [1]\<rparr>)"
    if "connected_flag d" "message_queue d = m # rest"
       "now - msg_timestamp m \<le> of_int (message_timeout (config d))"
       "U (calls d) (publish_of m) = Rc k" "k \<noteq> 0"
       "\<not> (0 < queue_size (config d) \<and> queue_size (config d) \<le> int (length rest))"
    for U d m rest now k
  proof -
    from that(3) have "\<not> now - msg_timestamp m > of_int (message_timeout (config d))"
      by simp
    from step_failed [where T = U, OF that(2) this that(1) that(4) that(5) that(6)]
    show ?thesis .
  qed
  from tr g show ?thesis by blast
qed

lemma worker_three_facts:
  "connected_flag (worker_client ms)" "queue_running (worker_client ms)"
  "message_queue (worker_client ms) = ms" "calls (worker_client ms) = []"
  "slept (worker_client ms) = []" "config (worker_client ms) = default_config"
  "sent_publishes (worker_client ms) = []"
  by (simp_all add: worker_client_def connected_client_def init_def sent_publishes_def)

text \<open>
  C2 as stated fails: \<open>m1\<close>, whose first attempt fails, is sent after \<open>m2\<close> and \<open>m3\<close>.
\<close>

theorem fifo_order_counterexample:
  "map_option sent_publishes
     (process_queue fail_first
        (worker_client [queued ''m1'' 0, queued ''m2'' 0, queued ''m3'' 0]) [1, 2, 3, 4])
     = Some [publish_of (queued ''m2'' 0), publish_of (queued ''m3'' 0),
             publish_of (queued ''m1'' 0)]
   \<and> [publish_of (queued ''m2'' 0), publish_of (queued ''m3'' 0), publish_of (queued ''m1'' 0)]
       \<noteq> [publish_of (queued ''m1'' 0), publish_of (queued ''m2'' 0),
           publish_of (queued ''m3'' 0)]"
proof -
  have "\<exists>c'. process_queue fail_first
        (worker_client [queued ''m1'' 0, queued ''m2'' 0, queued ''m3'' 0]) [1, 2, 3, 4] = Some c'
      \<and> sent_publishes c'
          = sent_publishes (worker_client [queued ''m1'' 0, queued ''m2'' 0, queued ''m3'' 0])
            @ [publish_of (queued ''m2'' 0), publish_of (queued ''m3'' 0),
               publish_of (queued ''m1'' 0)]
      \<and> message_queue c' = []
      \<and> slept c' = slept (worker_client [queued ''m1'' 0, queued ''m2'' 0, queued ''m3'' 0]) @ [1]"
    by (rule requeue_trace [where T = fail_first and r = 1 and ta = 1 and tb = 2 and tc = 3
          and td = 4, THEN conjunct2])
       (simp_all add: worker_three_facts fail_first_def default_config_def queued_def)
  then have "map_option sent_publishes
     (process_queue fail_first
        (worker_client [queued ''m1'' 0, queued ''m2'' 0, queued ''m3'' 0]) [1, 2, 3, 4])
     = Some [publish_of (queued ''m2'' 0), publish_of (queued ''m3'' 0),
             publish_of (queued ''m1'' 0)]"
    by (auto simp: worker_three_facts)
  moreover have "publish_of (queued ''m2'' 0) \<noteq> publish_of (queued ''m1'' 0)"
    by (simp add: publish_of_def queued_def)
  ultimately show ?thesis by simp
qed

theorem failed_send_requeued_at_back_witness:
  "connected_flag (worker_client [queued ''a'' 0, queued ''b'' 0, queued ''c'' 0])
   \<and> fail_first (calls (worker_client [queued ''a'' 0, queued ''b'' 0, queued ''c'' 0]))
        (publish_of (queued ''a'' 0)) = Rc 1
   \<and> map_option message_queue
        (process_queue fail_first
           (worker_client [queued ''a'' 0, queued ''b'' 0, queued ''c'' 0]) [1])
       = Some [queued ''b'' 0, queued ''c'' 0, queued ''a'' 0]
   \<and> (\<exists>c'. process_queue fail_first
           (worker_client [queued ''a'' 0, queued ''b'' 0, queued ''c'' 0]) [1, 2, 3, 4] = Some c'
         \<and> sent_publishes c' = [publish_of (queued ''b'' 0), publish_of (queued ''c'' 0),
                                  publish_of (queued ''a'' 0)])"
proof -
  have k: "connected_flag (worker_client [queued ''a'' 0, queued ''b'' 0, queued ''c'' 0])"
      "fail_first (calls (worker_client [queued ''a'' 0, queued ''b'' 0, queued ''c'' 0]))
        (publish_of (queued ''a'' 0)) = Rc 1"
    by (simp_all add: worker_three_facts fail_first_def)
  have one: "process_queue fail_first
           (worker_client [queued ''a'' 0, queued ''b'' 0, queued ''c'' 0]) [1]
           = Some ((worker_client [queued ''a'' 0, queued ''b'' 0, queued ''c'' 0])
                   \<lparr>message_queue := [queued ''b'' 0, queued ''c'' 0, queued ''a'' 0],
                     calls := calls (worker_client [queued ''a'' 0, queued ''b'' 0, queued ''c'' 0])
                        @ [(publish_of (queued ''a'' 0), Rc 1)],
                     slept := slept (worker_client [queued ''a'' 0, queued ''b'' 0, queued ''c'' 0])
                        @ [1]\<rparr>)"
    by (rule failed_send_requeued_at_back [where T = fail_first and r = 1 and ta = 1 and tb = 2
          and tc = 3 and td = 4, THEN conjunct1])
       (simp_all add: worker_three_facts fail_first_def default_config_def queued_def)
  have "\<exists>c'. process_queue fail_first
           (worker_client [queued ''a'' 0, queued ''b'' 0, queued ''c'' 0]) [1, 2, 3, 4] = Some c'
              \<and> sent_publishes c'
                 = sent_publishes (worker_client [queued ''a'' 0, queued ''b'' 0, queued ''c'' 0])
                   @ [publish_of (queued ''b'' 0), publish_of (queued ''c'' 0),
                      publish_of (queued ''a'' 0)]
              \<and> message_queue c' = []
              \<and> slept c' = slept (worker_client [queued ''a'' 0, queued ''b'' 0, queued ''c'' 0])
                   @ [1]"
    by (rule failed_send_requeued_at_back [where T = fail_first and r = 1 and ta = 1 and tb = 2
          and tc = 3 and td = 4, THEN conjunct2, THEN conjunct1])
       (simp_all add: worker_three_facts fail_first_def default_config_def queued_def)
  with k one show ?thesis by (auto simp: worker_three_facts)
qed

subsection \<open>Facts about resubscription and reconnection\<close>

lemma subscribe_each_returns:
  assumes "\<forall>h t q. T h (Subscribe t q) \<noteq> Raised"
  shows "\<exists>cs. subscribe_each T c xs = (Returned, c\<lparr>calls := calls c @ cs\<rparr>)
            \<and> map fst cs = map (\<lambda>(t, q). Subscribe t q) xs"
proof (induction xs arbitrary: c)
  case Nil
  show ?case by (rule exI [of _ "[]"]) simp
next
  case (Cons x xs)
  obtain t q where x: "x = (t, q)" by (cases x)
  from assms obtain r where r: "T (calls c) (Subscribe t q) = Rc r"
    by (cases "T (calls c) (Subscribe t q)") auto
  define c1 where "c1 = c\<lparr>calls := calls c @ [(Subscribe t q, Rc r)]\<rparr>"
  from Cons.IH [of c1] obtain cs where
    cs: "subscribe_each T c1 xs = (Returned, c1\<lparr>calls := calls c1 @ cs\<rparr>)"
        "map fst cs = map (\<lambda>(t, q). Subscribe t q) xs" by blast
  have "subscribe_each T c (x # xs) = subscribe_each T c1 xs"
    using r x by (simp add: call_eq c1_def)
  also have "\<dots> = (Returned, c\<lparr>calls := calls c @ ((Subscribe t q, Rc r) # cs)\<rparr>)"
    using cs(1) by (simp add: c1_def)
  finally have "subscribe_each T c (x # xs)
      = (Returned, c\<lparr>calls := calls c @ ((Subscribe t q, Rc r) # cs)\<rparr>)" .
  moreover have "map fst ((Subscribe t q, Rc r) # cs) = map (\<lambda>(t, q). Subscribe t q) (x # xs)"
    using cs(2) x by simp
  ultimately show ?case by (intro exI [of _ "(Subscribe t q, Rc r) # cs"] conjI)
qed

lemma resubscribe_all_returns:
  assumes "\<forall>h t q. T h (Subscribe t q) \<noteq> Raised"
  shows "\<exists>cs. resubscribe_all T c = (Returned, c\<lparr>calls := calls c @ cs\<rparr>)
            \<and> map fst cs = map (\<lambda>(t, s). Subscribe t (sub_qos s)) (subscriptions c)
                            @ map (\<lambda>(t, cb). Subscribe t 1) (wildcard_callbacks c)"
proof -
  from subscribe_each_returns [OF assms, of c
         "map (\<lambda>(topic, sub). (topic, sub_qos sub)) (subscriptions c)"]
  obtain cs1 where 1:
    "subscribe_each T c (map (\<lambda>(topic, sub). (topic, sub_qos sub)) (subscriptions c))
       = (Returned, c\<lparr>calls := calls c @ cs1\<rparr>)"
    "map fst cs1 = map (\<lambda>(t, q). Subscribe t q)
                     (map (\<lambda>(topic, sub). (topic, sub_qos sub)) (subscriptions c))"
    by blast
  define c1 where "c1 = c\<lparr>calls := calls c @ cs1\<rparr>"
  from subscribe_each_returns [OF assms, of c1
         "map (\<lambda>(topic, callback). (topic, 1)) (wildcard_callbacks c1)"]
  obtain cs2 where 2:
    "subscribe_each T c1 (map (\<lambda>(topic, callback). (topic, 1)) (wildcard_callbacks c1))
       = (Returned, c1\<lparr>calls := calls c1 @ cs2\<rparr>)"
    "map fst cs2 = map (\<lambda>(t, q). Subscribe t q)
                     (map (\<lambda>(topic, callback). (topic, 1)) (wildcard_callbacks c1))"
    by blast
  have r: "resubscribe_all T c = (Returned, c\<lparr>calls := calls c @ (cs1 @ cs2)\<rparr>)"
    using 1(1) 2(1) by (simp add: resubscribe_all_def c1_def)
  have w: "wildcard_callbacks c1 = wildcard_callbacks c" by (simp add: c1_def)
  have m1: "map fst cs1 = map (\<lambda>(t, s). Subscribe t (sub_qos s)) (subscriptions c)"
    unfolding 1(2) by (simp add: case_prod_unfold)
  have m2: "map fst cs2 = map (\<lambda>(t, cb). Subscribe t 1) (wildcard_callbacks c)"
    unfolding 2(2) w by (simp add: case_prod_unfold)
  show ?thesis
    by (rule exI [of _ "cs1 @ cs2"]) (simp add: r m1 m2)
qed

lemma on_connect_success:
  assumes "\<forall>h t q. T h (Subscribe t q) \<noteq> Raised"
  shows "\<exists>cs. on_connect T c 0
             = (Returned, start_queue_processor
                  (c\<lparr>connected_flag := True, state := CONNECTED, calls := calls c @ cs\<rparr>))
            \<and> map fst cs = map (\<lambda>(t, s). Subscribe t (sub_qos s)) (subscriptions c)
                            @ map (\<lambda>(t, cb). Subscribe t 1) (wildcard_callbacks c)"
proof -
  define c0 where "c0 = c\<lparr>connected_flag := True, state := CONNECTED\<rparr>"
  from resubscribe_all_returns [OF assms, of c0] obtain cs where
    cs: "resubscribe_all T c0 = (Returned, c0\<lparr>calls := calls c0 @ cs\<rparr>)"
        "map fst cs = map (\<lambda>(t, s). Subscribe t (sub_qos s)) (subscriptions c0)
                            @ map (\<lambda>(t, cb). Subscribe t 1) (wildcard_callbacks c0)"
    by blast
  have "on_connect T c 0 = (Returned, start_queue_processor (c0\<lparr>calls := calls c0 @ cs\<rparr>))"
    using cs(1) by (simp add: on_connect_def c0_def)
  moreover have "subscriptions c0 = subscriptions c" "wildcard_callbacks c0 = wildcard_callbacks c"
    "calls c0 = calls c" by (simp_all add: c0_def)
  ultimately show ?thesis
    using cs(2) by (intro exI [of _ cs]) (simp add: c0_def)
qed

lemma dispatch_message_invoked:
  "snd (snd (dispatch_message R c t pd))
     = snd (snd (dispatch_exact R t pd (subscriptions c)))
       @ (if fst (dispatch_exact R t pd (subscriptions c)) = Returned
          then snd (snd (dispatch_wildcards R t pd (wildcard_callbacks c))) else [])"
proof (cases "dispatch_exact R t pd (subscriptions c)" rule: prod_cases3)
  case (fields st l i)
  note ex = fields
  show ?thesis
  proof (cases "dispatch_wildcards R t pd (wildcard_callbacks c)" rule: prod_cases3)
    case (fields st' l' i')
    with ex show ?thesis
      by (cases st; cases st') (simp_all add: dispatch_message_def)
  qed
qed

lemma on_message_invoked:
  "snd (snd (on_message D J R c msg)) = snd (snd (on_message_body D J R c msg))"
proof (cases "on_message_body D J R c msg" rule: prod_cases3)
  case (fields out c' i)
  then show ?thesis by (cases out) (simp_all add: on_message_def)
qed

lemma on_message_body_invoked:
  "snd (snd (on_message_body D J R c msg))
     = (case D (in_payload msg) of
          None \<Rightarrow> []
        | Some payload \<Rightarrow>
            (case J payload of
               Parsed j \<Rightarrow>
                 snd (snd (dispatch_message R (c\<lparr>messages_received := messages_received c + 1\<rparr>)
                             (in_topic msg) (Json j)))
             | JSONDecodeError \<Rightarrow>
                 snd (snd (dispatch_message R (c\<lparr>messages_received := messages_received c + 1\<rparr>)
                             (in_topic msg) (Text payload)))
             | OtherException \<Rightarrow> []))"
proof (cases "D (in_payload msg)")
  case None
  then show ?thesis by (simp add: on_message_body_def)
next
  case (Some payload)
  then show ?thesis
    by (cases "J payload") (simp_all add: on_message_body_def Let_def)
qed

lemma invoked_by_registry:
  "subscriptions c' = subscriptions c \<Longrightarrow> wildcard_callbacks c' = wildcard_callbacks c
   \<Longrightarrow> invoked_by D J R c' msg = invoked_by D J R c msg"
  by (simp add: invoked_by_def on_message_invoked on_message_body_invoked
        dispatch_message_invoked split: option.splits loads_result.splits)

lemma mixed_client_eq:
  "mixed_client = (init default_config)
      \<lparr>subscriptions := [(''b'', \<lparr>sub_topic = ''b'', sub_qos = 0, sub_callback = Some 2\<rparr>)],
       wildcard_callbacks := [(''a/+'', Some 1)]\<rparr>"
  by (simp add: mixed_client_def subscribe_def init_def Let_def)

lemma accepting_subscribe: "\<forall>h t q. accepting h (Subscribe t q) \<noteq> Raised"
  by (simp add: accepting_def)

text \<open>
  C5, as amended. When no subscribe call on the Paho client raises, \<^verbatim>\<open>_on_connect\<close> with
  \<open>rc = 0\<close> issues one subscribe call per stored entry and nothing else: first the exact
  topics, in the insertion order of the dictionary and with their registered QoS, then the
  wildcard patterns in the order of their list. The registry is left as it was, so an
  inbound message runs the same callbacks as before.
\<close>

theorem on_connect_replays_subscriptions:
  assumes "\<forall>h t q. T h (Subscribe t q) \<noteq> Raised"
  shows "\<exists>cs. fst (on_connect T c 0) = Returned
       \<and> calls (snd (on_connect T c 0)) = calls c @ cs
       \<and> length cs = length (subscriptions c) + length (wildcard_callbacks c)
       \<and> take (length (subscriptions c)) (map fst cs)
            = map (\<lambda>(t, s). Subscribe t (sub_qos s)) (subscriptions c)
       \<and> map subscribed_topic (drop (length (subscriptions c)) (map fst cs))
            = map (\<lambda>(t, cb). Some t) (wildcard_callbacks c)
       \<and> subscriptions (snd (on_connect T c 0)) = subscriptions c
       \<and> wildcard_callbacks (snd (on_connect T c 0)) = wildcard_callbacks c
       \<and> invoked_by D J R (snd (on_connect T c 0)) msg = invoked_by D J R c msg"
proof -
  from on_connect_success [OF assms, of c] obtain cs where
    eq: "on_connect T c 0
             = (Returned, start_queue_processor
                  (c\<lparr>connected_flag := True, state := CONNECTED, calls := calls c @ cs\<rparr>))"
    and m: "map fst cs = map (\<lambda>(t, s). Subscribe t (sub_qos s)) (subscriptions c)
                            @ map (\<lambda>(t, cb). Subscribe t 1) (wildcard_callbacks c)"
    by blast
  have s: "subscriptions (snd (on_connect T c 0)) = subscriptions c"
    and w: "wildcard_callbacks (snd (on_connect T c 0)) = wildcard_callbacks c"
    and k: "calls (snd (on_connect T c 0)) = calls c @ cs"
    and f: "fst (on_connect T c 0) = Returned"
    unfolding eq by (simp_all add: start_queue_processor_def)
  have l: "length cs = length (subscriptions c) + length (wildcard_callbacks c)"
    using arg_cong [OF m, of length] by simp
  have t: "take (length (subscriptions c)) (map fst cs)
            = map (\<lambda>(t, s). Subscribe t (sub_qos s)) (subscriptions c)"
    unfolding m by simp
  have "drop (length (subscriptions c)) (map fst cs)
            = map (\<lambda>(t, cb). Subscribe t 1) (wildcard_callbacks c)"
    unfolding m by simp
  then have d: "map subscribed_topic (drop (length (subscriptions c)) (map fst cs))
            = map (\<lambda>(t, cb). Some t) (wildcard_callbacks c)"
    by (simp add: subscribed_topic_def case_prod_unfold)
  have i: "invoked_by D J R (snd (on_connect T c 0)) msg = invoked_by D J R c msg"
    using s w by (rule invoked_by_registry)
  show ?thesis
    by (rule exI [of _ cs]) (intro conjI f k l t d s w i)
qed

text \<open>
  C5 as stated fails: a pattern registered with QoS 2 before an exact topic is re-issued
  after that topic, and with QoS 1.
\<close>

theorem resubscribe_order_counterexample:
  "map fst (calls (snd (on_connect accepting mixed_client 0)))
     = [Subscribe ''b'' 0, Subscribe ''a/+'' 1]
   \<and> map fst (calls (snd (on_connect accepting mixed_client 0)))
     \<noteq> [Subscribe ''a/+'' 2, Subscribe ''b'' 0]"
proof -
  from on_connect_success [OF accepting_subscribe, of mixed_client] obtain cs where
    eq: "on_connect accepting mixed_client 0
             = (Returned, start_queue_processor
                  (mixed_client\<lparr>connected_flag := True, state := CONNECTED,
                     calls := calls mixed_client @ cs\<rparr>))"
    and m: "map fst cs = map (\<lambda>(t, s). Subscribe t (sub_qos s)) (subscriptions mixed_client)
                            @ map (\<lambda>(t, cb). Subscribe t 1) (wildcard_callbacks mixed_client)"
    by blast
  have "map fst (calls (snd (on_connect accepting mixed_client 0)))
      = map fst (calls mixed_client) @ map fst cs"
    unfolding eq by (simp add: start_queue_processor_def)
  also have "\<dots> = [Subscribe ''b'' 0, Subscribe ''a/+'' 1]"
    unfolding m by (simp add: mixed_client_eq init_def)
  finally show ?thesis by simp
qed

theorem on_connect_replays_subscriptions_witness:
  "(\<forall>h t q. accepting h (Subscribe t q) \<noteq> Raised)
   \<and> fst (on_connect accepting mixed_client 0) = Returned
   \<and> subscriptions (snd (on_connect accepting mixed_client 0))
        = [(''b'', \<lparr>sub_topic = ''b'', sub_qos = 0, sub_callback = Some 2\<rparr>)]
   \<and> wildcard_callbacks (snd (on_connect accepting mixed_client 0)) = [(''a/+'', Some 1)]
   \<and> length (calls (snd (on_connect accepting mixed_client 0))) = 2
   \<and> take 1 (map fst (calls (snd (on_connect accepting mixed_client 0)))) = [Subscribe ''b'' 0]
   \<and> map subscribed_topic (drop 1 (map fst (calls (snd (on_connect accepting mixed_client 0)))))
        = [Some ''a/+'']"
proof -
  have c0: "calls mixed_client = []" "length (subscriptions mixed_client) = 1"
     "length (wildcard_callbacks mixed_client) = 1"
     "subscriptions mixed_client
        = [(''b'', \<lparr>sub_topic = ''b'', sub_qos = 0, sub_callback = Some 2\<rparr>)]"
     "wildcard_callbacks mixed_client = [(''a/+'', Some 1)]"
    by (simp_all add: mixed_client_eq init_def)
  from on_connect_replays_subscriptions [OF accepting_subscribe, of mixed_client]
  obtain cs where
    "fst (on_connect accepting mixed_client 0) = Returned"
    "calls (snd (on_connect accepting mixed_client 0)) = calls mixed_client @ cs"
    "length cs = length (subscriptions mixed_client) + length (wildcard_callbacks mixed_client)"
    "take (length (subscriptions mixed_client)) (map fst cs)
            = map (\<lambda>(t, s). Subscribe t (sub_qos s)) (subscriptions mixed_client)"
    "map subscribed_topic (drop (length (subscriptions mixed_client)) (map fst cs))
            = map (\<lambda>(t, cb). Some t) (wildcard_callbacks mixed_client)"
    "subscriptions (snd (on_connect accepting mixed_client 0)) = subscriptions mixed_client"
    "wildcard_callbacks (snd (on_connect accepting mixed_client 0))
       = wildcard_callbacks mixed_client"
    by blast
  then show ?thesis
    using accepting_subscribe by (simp add: c0)
qed

lemma on_connect_keeps:
  "slept (snd (on_connect T c rc)) = slept c"
  "config (snd (on_connect T c rc)) = config c"
  "reconnect_count (snd (on_connect T c rc)) = reconnect_count c"
proof -
  obtain cs where r: "snd (resubscribe_all T (c\<lparr>connected_flag := True, state := CONNECTED\<rparr>))
      = c\<lparr>connected_flag := True, state := CONNECTED\<rparr>\<lparr>calls := cs\<rparr>"
    using resubscribe_all_frame by blast
  have "slept (snd (on_connect T c rc)) = slept c
      \<and> config (snd (on_connect T c rc)) = config c
      \<and> reconnect_count (snd (on_connect T c rc)) = reconnect_count c"
  proof (cases "rc = 0")
    case True
    show ?thesis
    proof (cases "resubscribe_all T (c\<lparr>connected_flag := True, state := CONNECTED\<rparr>)")
      case (Pair st c')
      with r have "c' = c\<lparr>connected_flag := True, state := CONNECTED\<rparr>\<lparr>calls := cs\<rparr>" by simp
      with Pair True show ?thesis
        by (cases st) (simp_all add: on_connect_def start_queue_processor_def)
    qed
  next
    case False
    then show ?thesis by (simp add: on_connect_def add_log_def)
  qed
  then show "slept (snd (on_connect T c rc)) = slept c"
    "config (snd (on_connect T c rc)) = config c"
    "reconnect_count (snd (on_connect T c rc)) = reconnect_count c" by simp_all
qed

lemma deliver_keeps:
  "slept (deliver T c ev) = slept c"
  "config (deliver T c ev) = config c"
  "reconnect_count (deliver T c ev) = reconnect_count c"
  by (cases ev; simp add: deliver_def on_connect_keeps)+

lemma reconnect_loop_trace:
  "\<exists>ds. slept (reconnect_loop T c d evs) = slept c @ ds
        \<and> backoff_chain (max_reconnect_delay (config c)) d ds
        \<and> ((\<forall>h. T h Reconnect \<noteq> Raised) \<longrightarrow> 0 \<le> d
             \<longrightarrow> 0 \<le> max_reconnect_delay (config c)
             \<longrightarrow> ds = doubling (max_reconnect_delay (config c)) d (length ds))
        \<and> config (reconnect_loop T c d evs) = config c
        \<and> reconnect_count (reconnect_loop T c d evs) = reconnect_count c"
proof (induction evs arbitrary: c d)
  case Nil
  show ?case by (rule exI [of _ "[]"]) simp
next
  case (Cons ev evs)
  let ?M = "max_reconnect_delay (config c)"
  show ?case
  proof (cases "auto_reconnect (config c) \<and> \<not> connected_flag c")
    case False
    then have "reconnect_loop T c d (ev # evs) = c" by auto
    then show ?thesis by (intro exI [of _ "[]"]) (simp del: reconnect_loop.simps)
  next
    case True
    note go = True
    show ?thesis
    proof (cases "d < 0")
      case True
      define c1 where "c1 = deliver T (add_log (LogError ''Reconnect failed'') c) ev"
      have k: "slept c1 = slept c" "config c1 = config c" "reconnect_count c1 = reconnect_count c"
        by (simp_all add: c1_def deliver_keeps add_log_def)
      have e: "reconnect_loop T c d (ev # evs) = reconnect_loop T c1 d evs"
        using go True by (simp add: c1_def)
      from Cons.IH [of c1 d] obtain ds where
        "slept (reconnect_loop T c1 d evs) = slept c1 @ ds"
        "backoff_chain (max_reconnect_delay (config c1)) d ds"
        "config (reconnect_loop T c1 d evs) = config c1"
        "reconnect_count (reconnect_loop T c1 d evs) = reconnect_count c1" by blast
      then show ?thesis
        using True by (intro exI [of _ ds]) (simp add: e k del: reconnect_loop.simps)
    next
      case False
      define res where "res = T (calls (sleep d c)) Reconnect"
      define c2 where "c2 = (sleep d c)\<lparr>calls := calls (sleep d c) @ [(Reconnect, res)]\<rparr>"
      have cl: "call T (sleep d c) Reconnect = (res, c2)"
        by (simp add: call_eq res_def c2_def)
      have k2: "slept c2 = slept c @ [d]" "config c2 = config c"
          "reconnect_count c2 = reconnect_count c"
        by (simp_all add: c2_def sleep_def)
      show ?thesis
      proof (cases res)
        case Raised
        define c3 where "c3 = deliver T (add_log (LogError ''Reconnect failed'') c2) ev"
        have k: "slept c3 = slept c @ [d]" "config c3 = config c"
            "reconnect_count c3 = reconnect_count c"
          by (simp_all add: c3_def deliver_keeps add_log_def k2)
        have e: "reconnect_loop T c d (ev # evs) = reconnect_loop T c3 d evs"
          using go False cl Raised by (simp add: c3_def)
        have nr: "(\<forall>h. T h Reconnect \<noteq> Raised) \<longleftrightarrow> False"
          using Raised res_def by auto
        from Cons.IH [of c3 d] obtain ds where
          "slept (reconnect_loop T c3 d evs) = slept c3 @ ds"
          "backoff_chain (max_reconnect_delay (config c3)) d ds"
          "config (reconnect_loop T c3 d evs) = config c3"
          "reconnect_count (reconnect_loop T c3 d evs) = reconnect_count c3" by blast
        then show ?thesis
          by (intro exI [of _ "d # ds"]) (simp add: e k nr del: reconnect_loop.simps)
      next
        case (Rc r)
        define c3 where "c3 = deliver T c2 ev"
        have k: "slept c3 = slept c @ [d]" "config c3 = config c"
            "reconnect_count c3 = reconnect_count c"
          by (simp_all add: c3_def deliver_keeps k2)
        have e: "reconnect_loop T c d (ev # evs) = reconnect_loop T c3 (min (d * 2) ?M) evs"
          using go False cl Rc by (simp add: c3_def k2)
        from Cons.IH [of c3 "min (d * 2) ?M"] obtain ds where
          ds: "slept (reconnect_loop T c3 (min (d * 2) ?M) evs) = slept c3 @ ds"
          "backoff_chain (max_reconnect_delay (config c3)) (min (d * 2) ?M) ds"
          "(\<forall>h. T h Reconnect \<noteq> Raised) \<longrightarrow> 0 \<le> min (d * 2) ?M
             \<longrightarrow> 0 \<le> max_reconnect_delay (config c3)
             \<longrightarrow> ds = doubling (max_reconnect_delay (config c3)) (min (d * 2) ?M) (length ds)"
          "config (reconnect_loop T c3 (min (d * 2) ?M) evs) = config c3"
          "reconnect_count (reconnect_loop T c3 (min (d * 2) ?M) evs) = reconnect_count c3"
          by blast
        have dbl: "d # ds = doubling ?M d (length (d # ds))"
          if "\<forall>h. T h Reconnect \<noteq> Raised" "0 \<le> d" "0 \<le> ?M"
          using that ds(3) k(2) by simp
        show ?thesis
          using ds(1,2,4,5) dbl
          by (intro exI [of _ "d # ds"]) (simp add: e k del: reconnect_loop.simps)
      qed
    qed
  qed
qed

lemma backoff_chain_bounds:
  "0 \<le> d \<Longrightarrow> d \<le> M \<Longrightarrow> backoff_chain M d ds
   \<Longrightarrow> sorted ds \<and> (\<forall>x\<in>set ds. d \<le> x \<and> x \<le> M)"
proof (induction ds arbitrary: d)
  case Nil
  then show ?case by simp
next
  case (Cons x xs)
  from Cons.prems(3) have x: "x = d"
    and alt: "backoff_chain M d xs \<or> backoff_chain M (min (d * 2) M) xs" by simp_all
  from alt have "sorted xs \<and> (\<forall>y\<in>set xs. d \<le> y \<and> y \<le> M)"
  proof
    assume "backoff_chain M d xs"
    with Cons.IH [of d] Cons.prems(1,2) show ?thesis by simp
  next
    assume a: "backoff_chain M (min (d * 2) M) xs"
    have "0 \<le> min (d * 2) M" "min (d * 2) M \<le> M" "d \<le> min (d * 2) M"
      using Cons.prems(1,2) by simp_all
    with Cons.IH [of "min (d * 2) M"] a
    have "sorted xs \<and> (\<forall>y\<in>set xs. min (d * 2) M \<le> y \<and> y \<le> M)" by simp
    with \<open>d \<le> min (d * 2) M\<close> show ?thesis by fastforce
  qed
  with x Cons.prems(2) show ?case by simp
qed

lemma backoff_chain_hd: "backoff_chain M d ds \<Longrightarrow> ds \<noteq> [] \<Longrightarrow> hd ds = d"
  by (cases ds) simp_all

text \<open>
  C6, as amended. One run of \<^verbatim>\<open>_handle_reconnect\<close> adds exactly one to \<^verbatim>\<open>reconnect_count\<close>,
  however many attempts its loop makes. With \<open>0 \<le> reconnect_delay \<le> max_reconnect_delay\<close>
  the delays it sleeps start at \<^verbatim>\<open>reconnect_delay\<close>, never decrease and never exceed
  \<^verbatim>\<open>max_reconnect_delay\<close>; when no \<^verbatim>\<open>reconnect\<close> call raises, each delay is the double of
  the one before, capped at \<^verbatim>\<open>max_reconnect_delay\<close>.
\<close>

theorem handle_reconnect_backoff:
  "reconnect_count (handle_reconnect T c evs) = reconnect_count c + 1
   \<and> (0 \<le> reconnect_delay (config c)
        \<and> reconnect_delay (config c) \<le> max_reconnect_delay (config c) \<longrightarrow>
       (\<exists>ds. slept (handle_reconnect T c evs) = slept c @ ds
          \<and> sorted ds
          \<and> (\<forall>x\<in>set ds. reconnect_delay (config c) \<le> x \<and> x \<le> max_reconnect_delay (config c))
          \<and> (ds \<noteq> [] \<longrightarrow> hd ds = reconnect_delay (config c))
          \<and> ((\<forall>h. T h Reconnect \<noteq> Raised) \<longrightarrow>
               ds = doubling (max_reconnect_delay (config c)) (reconnect_delay (config c))
                      (length ds))))"
proof -
  define c1 where "c1 = c\<lparr>reconnect_count := reconnect_count c + 1\<rparr>"
  have k: "config c1 = config c" "slept c1 = slept c" "reconnect_count c1 = reconnect_count c + 1"
    by (simp_all add: c1_def)
  have h: "handle_reconnect T c evs = reconnect_loop T c1 (reconnect_delay (config c)) evs"
    by (simp add: handle_reconnect_def c1_def)
  from reconnect_loop_trace [of T c1 "reconnect_delay (config c)" evs] obtain ds where
    ds: "slept (handle_reconnect T c evs) = slept c @ ds"
        "backoff_chain (max_reconnect_delay (config c)) (reconnect_delay (config c)) ds"
        "(\<forall>h. T h Reconnect \<noteq> Raised) \<longrightarrow> 0 \<le> reconnect_delay (config c)
             \<longrightarrow> 0 \<le> max_reconnect_delay (config c)
             \<longrightarrow> ds = doubling (max_reconnect_delay (config c)) (reconnect_delay (config c))
                      (length ds)"
        "reconnect_count (handle_reconnect T c evs) = reconnect_count c + 1"
    unfolding h k by blast
  have "\<exists>ds. slept (handle_reconnect T c evs) = slept c @ ds
          \<and> sorted ds
          \<and> (\<forall>x\<in>set ds. reconnect_delay (config c) \<le> x \<and> x \<le> max_reconnect_delay (config c))
          \<and> (ds \<noteq> [] \<longrightarrow> hd ds = reconnect_delay (config c))
          \<and> ((\<forall>h. T h Reconnect \<noteq> Raised) \<longrightarrow>
               ds = doubling (max_reconnect_delay (config c)) (reconnect_delay (config c))
                      (length ds))"
    if b: "0 \<le> reconnect_delay (config c)"
          "reconnect_delay (config c) \<le> max_reconnect_delay (config c)"
  proof -
    from backoff_chain_bounds [OF b ds(2)] have
      "sorted ds"
      "\<forall>x\<in>set ds. reconnect_delay (config c) \<le> x \<and> x \<le> max_reconnect_delay (config c)"
      by simp_all
    moreover have "ds \<noteq> [] \<longrightarrow> hd ds = reconnect_delay (config c)"
      using backoff_chain_hd [OF ds(2)] by simp
    moreover have "(\<forall>h. T h Reconnect \<noteq> Raised) \<longrightarrow>
               ds = doubling (max_reconnect_delay (config c)) (reconnect_delay (config c))
                      (length ds)"
      using ds(3) b by simp
    ultimately show ?thesis using ds(1) by blast
  qed
  with ds(4) show ?thesis by blast
qed

lemma three_attempts:
  "on_disconnect accepting connected_client 1 [None, None, None]
     = (add_log (LogWarning ''Unexpected disconnect'') connected_client)
         \<lparr>connected_flag := False, state := RECONNECTING, queue_running := False,
          reconnect_count := 1,
          slept := [5, 10, 20],
          calls := [(Reconnect, Rc 0), (Reconnect, Rc 0), (Reconnect, Rc 0)]\<rparr>"
  by (simp add: on_disconnect_def handle_reconnect_def call_eq deliver_def sleep_def
        connected_client_def init_def default_config_def accepting_def add_log_def
        stop_queue_processor_def Let_def)

text \<open>
  C6 as stated fails: after an unexpected disconnect followed by three failed attempts,
  with delays 5, 10 and 20, \<^verbatim>\<open>reconnect_count\<close> has grown by one only.
\<close>

theorem reconnect_count_counterexample:
  "reconnect_count (on_disconnect accepting connected_client 1 [None, None, None])
     = reconnect_count connected_client + 1
   \<and> slept (on_disconnect accepting connected_client 1 [None, None, None]) = [5, 10, 20]
   \<and> map fst (calls (on_disconnect accepting connected_client 1 [None, None, None]))
       = [Reconnect, Reconnect, Reconnect]
   \<and> \<not> connected_flag (on_disconnect accepting connected_client 1 [None, None, None])"
  unfolding three_attempts
  by (simp add: connected_client_def init_def add_log_def)

theorem handle_reconnect_backoff_witness:
  "(0::int) \<le> reconnect_delay (config connected_client)
   \<and> reconnect_delay (config connected_client) \<le> max_reconnect_delay (config connected_client)
   \<and> (\<forall>h. accepting h Reconnect \<noteq> Raised)
   \<and> reconnect_count (handle_reconnect accepting
        (connected_client\<lparr>connected_flag := False\<rparr>) [None, None, None, None, None, None]) = 1
   \<and> slept (handle_reconnect accepting
        (connected_client\<lparr>connected_flag := False\<rparr>) [None, None, None, None, None, None])
       = [5, 10, 20, 40, 80, 120]"
proof -
  let ?c = "connected_client\<lparr>connected_flag := False\<rparr>"
  let ?evs = "[None, None, None, None, None, None] :: int option list"
  have cfg: "reconnect_delay (config ?c) = 5" "max_reconnect_delay (config ?c) = 120"
      "reconnect_count ?c = 0" "slept ?c = []"
      "reconnect_delay (config connected_client) = 5"
      "max_reconnect_delay (config connected_client) = 120"
    by (simp_all add: connected_client_def init_def default_config_def)
  have acc: "\<forall>h. accepting h Reconnect \<noteq> Raised" by (simp add: accepting_def)
  have len: "length (slept (handle_reconnect accepting ?c ?evs)) = 6"
    by (simp add: handle_reconnect_def call_eq deliver_def sleep_def
        connected_client_def init_def default_config_def accepting_def)
  from handle_reconnect_backoff [of accepting ?c ?evs] cfg acc obtain ds where
    ds: "reconnect_count (handle_reconnect accepting ?c ?evs) = 1"
        "slept (handle_reconnect accepting ?c ?evs) = ds"
        "ds = doubling 120 5 (length ds)"
    by auto
  from ds(2) len have "length ds = 6" by simp
  with ds(3) have "ds = [5, 10, 20, 40, 80, 120]"
    by (simp add: numeral_eq_Suc)
  with ds cfg acc show ?thesis by simp
qed

subsection \<open>Facts about dispatch and the wildcard list\<close>
















lemma two_listeners_eq:
  "two_listeners = (init default_config)
      \<lparr>wildcard_callbacks := [(''a/+'', Some 1), (''a/#'', Some 2)]\<rparr>"
  by (simp add: two_listeners_def subscribe_def init_def Let_def)

lemma inbound_matches: "topic_matches ''a/b'' ''a/+''" "topic_matches ''a/b'' ''a/#''"
  by (simp_all add: topic_matches_def)



text \<open>
  A callback that raises \<^verbatim>\<open>SystemExit\<close> is not caught: the exception leaves
  \<^verbatim>\<open>_on_message\<close> and the second subscriber is not run.
\<close>

lemma exiting_callback_ends_dispatch:
  "on_message Some not_json first_exits two_listeners inbound
     = (Propagated, two_listeners\<lparr>messages_received := 1\<rparr>, [(1, ''a/b'', Text ''hello'')])"
  by (simp add: on_message_def on_message_body_def dispatch_message_def dispatch_exact_def
        run_callback_def inbound_def two_listeners_eq init_def not_json_def first_exits_def
        inbound_matches)












end
